theory Spec2Isabelle
  imports Main "HOL-Library.Sublist" "HOL-Library.Multiset"
begin

section \<open>setup-odin: the cache-validated build orchestration of \<open>src/index.js\<close>\<close>

text \<open>
  The action is one JavaScript file of asynchronous functions. Everything it does to the
  outside goes through the GitHub toolkit (\<open>@actions/core\<close>, \<open>@actions/exec\<close>,
  \<open>@actions/cache\<close>, \<open>@actions/io\<close>) and through \<open>os.platform()\<close>. The embedding
  records each toolkit call as an \<open>event\<close>, takes the answers of the outside from a
  \<open>world\<close>, and represents an asynchronous function as a \<open>task\<close>: the sequence of its
  synchronous effects, cut at the points where it waits for an outside operation.
  \<open>Promise.all\<close> interleaves two tasks under a schedule, so that every statement about
  \<open>run\<close> is a statement about all interleavings.
\<close>

subsection \<open>Data\<close>

text \<open>The fields of the \<open>Inputs\<close> object that \<open>index.js\<close> reads.\<close>

record inputs =
  repository :: string
  odinVersion :: string
  llvmVersion :: string
  buildType :: string

text \<open>
  \<open>./common\<close> is required by \<open>index.js\<close> and used through five functions. They are
  parameters of the model: \<open>getInputs\<close> may throw (\<open>Inl\<close> the message of the error),
  the others are pure.
\<close>

record common =
  getInputs :: "string + inputs"
  odinPath :: string
  cacheCheck :: "inputs \<Rightarrow> bool"
  composeCacheKey :: "inputs \<Rightarrow> string"
  cachePaths :: "string list"

text \<open>The object that \<open>exec.getExecOutput\<close> resolves to.\<close>

record exec_output =
  exitCode :: int
  stdout :: string
  stderr :: string

text \<open>
  The answers of the outside. Each asynchronous toolkit call either resolves (\<open>Inr\<close>) or
  rejects with an error (\<open>Inl\<close> its message); the answer may depend on every argument of
  the call. \<open>cache.restoreCache\<close> resolves to the restored key or to \<open>undefined\<close>
  (\<open>None\<close>).
\<close>

record world =
  os_platform :: string
  on_exec :: "string \<Rightarrow> string list \<Rightarrow> string option \<Rightarrow> string + int"
  on_getExecOutput :: "string \<Rightarrow> string list \<Rightarrow> string option \<Rightarrow> string + exec_output"
  on_restoreCache :: "string list \<Rightarrow> string \<Rightarrow> string + string option"
  on_which :: "string \<Rightarrow> string + string"

text \<open>
  The toolkit calls of \<open>index.js\<close>, with their arguments. The third argument of \<open>Exec\<close>
  and \<open>GetExecOutput\<close> is the \<open>cwd\<close> option, \<open>None\<close> where the call passes no options.
\<close>

datatype event =
    AddPath string
  | Info string
  | SetOutput string bool
  | SaveState string string
  | SetFailed string
  | Exec string "string list" "string option"
  | GetExecOutput string "string list" "string option"
  | RestoreCache "string list" string
  | Which string

subsection \<open>Asynchronous functions as tasks\<close>

text \<open>
  \<open>Return x\<close>: the promise is fulfilled with \<open>x\<close>. \<open>Throw m\<close>: it is rejected with an
  \<open>Error\<close> of message \<open>m\<close>. \<open>Act e t\<close>: the synchronous call \<open>e\<close>, then \<open>t\<close>.
  \<open>Await t\<close>: the function is suspended until an outside operation has finished, then
  goes on as \<open>t\<close>.
\<close>

datatype 'a task =
    Return 'a
  | Throw string
  | Act event "'a task"
  | Await "'a task"

text \<open>\<open>await f(...)\<close> inside an asynchronous function, followed by the rest \<open>k\<close>.\<close>

primrec bind :: "'a task \<Rightarrow> ('a \<Rightarrow> 'b task) \<Rightarrow> 'b task" where
  "bind (Return x) k = k x"
| "bind (Throw m) k = Throw m"
| "bind (Act e t) k = Act e (bind t k)"
| "bind (Await t) k = Await (bind t k)"

text \<open>What a task does and how it ends when it runs to its end.\<close>

primrec effects :: "'a task \<Rightarrow> event list" where
  "effects (Return x) = []"
| "effects (Throw m) = []"
| "effects (Act e t) = e # effects t"
| "effects (Await t) = effects t"

primrec outcome :: "'a task \<Rightarrow> string + 'a" where
  "outcome (Return x) = Inr x"
| "outcome (Throw m) = Inl m"
| "outcome (Act e t) = outcome t"
| "outcome (Await t) = outcome t"

text \<open>The asynchronous toolkit calls: the call is made, the caller waits for the answer.\<close>

definition of_answer :: "string + 'a \<Rightarrow> 'a task" where
  "of_answer r = (case r of Inl m \<Rightarrow> Throw m | Inr x \<Rightarrow> Return x)"

definition exec_exec :: "world \<Rightarrow> string \<Rightarrow> string list \<Rightarrow> string option \<Rightarrow> int task" where
  "exec_exec w cmd args cwd = Act (Exec cmd args cwd) (Await (of_answer (on_exec w cmd args cwd)))"

definition exec_getExecOutput ::
  "world \<Rightarrow> string \<Rightarrow> string list \<Rightarrow> string option \<Rightarrow> exec_output task" where
  "exec_getExecOutput w cmd args cwd =
     Act (GetExecOutput cmd args cwd) (Await (of_answer (on_getExecOutput w cmd args cwd)))"

definition cache_restoreCache :: "world \<Rightarrow> string list \<Rightarrow> string \<Rightarrow> string option task" where
  "cache_restoreCache w paths key =
     Act (RestoreCache paths key) (Await (of_answer (on_restoreCache w paths key)))"

subsection \<open>Strings\<close>

text \<open>\<open>String.prototype.includes\<close>: the argument occurs as a contiguous part.\<close>

fun str_includes :: "string \<Rightarrow> string \<Rightarrow> bool" where
  "str_includes [] sub = (sub = [])"
| "str_includes (c # s) sub = (prefix sub (c # s) \<or> str_includes s sub)"

text \<open>A number in a template literal: the decimal digits, with a sign when negative.\<close>

definition digit :: "nat \<Rightarrow> char" where
  "digit d = ''0123456789'' ! d"

fun show_nat :: "nat \<Rightarrow> string" where
  "show_nat n = (if n < 10 then [digit n] else show_nat (n div 10) @ [digit (n mod 10)])"

declare show_nat.simps [simp del]

definition show_int :: "int \<Rightarrow> string" where
  "show_int i = (if i < 0 then CHR ''-'' # show_nat (nat (- i)) else show_nat (nat i))"

subsection \<open>The functions of \<open>index.js\<close>\<close>

text \<open>\<open>pullOdin\<close>, lines 100 to 115.\<close>

definition pullOdin :: "common \<Rightarrow> world \<Rightarrow> string \<Rightarrow> string \<Rightarrow> unit task" where
  "pullOdin c w repo version =
     bind (exec_exec w ''git''
             [''clone'', repo, odinPath c, ''--branch'', version,
              ''--depth=1'', ''--single-branch'', ''--no-tags''] None)
       (\<lambda>code.
          if code \<noteq> 0
          then Throw (''Git clone failed with exit code: '' @ show_int code
                        @ '', are you sure that version exists?'')
          else Return ())"

text \<open>\<open>pullUpdates\<close>, lines 123 to 137.\<close>

definition pullUpdates :: "world \<Rightarrow> string \<Rightarrow> string \<Rightarrow> bool task" where
  "pullUpdates w path version =
     bind (exec_getExecOutput w ''git'' [''pull'', ''origin'', version] (Some path))
       (\<lambda>output. Return (str_includes (stdout output) ''Already up to date.''))"

text \<open>\<open>restoreCache\<close>, lines 71 to 92.\<close>

definition restoreCache :: "common \<Rightarrow> world \<Rightarrow> inputs \<Rightarrow> string \<Rightarrow> bool task" where
  "restoreCache c w inp path =
     (let key = composeCacheKey c inp in
      bind (cache_restoreCache w (cachePaths c) key)
        (\<lambda>restoredKey.
           if Some key = restoredKey
           then Act (Info ''Cache HIT, checking if it is still up-to-date'')
                  (bind (pullUpdates w path (odinVersion inp))
                     (\<lambda>current.
                        if current
                        then Act (Info ''Cache is still up-to-date'')
                               (Act (SetOutput ''cache-hit'' True)
                                  (Act (SaveState ''cache-hit'' ''true'')
                                     (Act (Info ''Successfully set up Odin compiler'')
                                        (Return True))))
                        else Act (Info ''Cache is not up-to-date, rebuilding the compiler now'')
                               (Return False)))
           else Act (Info ''Cache MISS'')
                  (bind (pullOdin c w (repository inp) (odinVersion inp))
                     (\<lambda>_. Return False))))"

text \<open>
  \<open>pullOdinBuildDependencies\<close>, lines 144 to 192. The check of line 189 is \<open>check_code\<close>.
  On \<open>linux\<close> the promise of \<open>io.which\<close> gets a \<open>then\<close> handler, which runs when it
  resolves, and a \<open>catch\<close> handler, which runs when it rejects and whose own rejection
  (that of \<open>exec.exec\<close>) is the rejection of the awaited promise.
\<close>

definition check_code :: "int \<Rightarrow> unit task" where
  "check_code code =
     (if code \<noteq> 0
      then Throw (''Installing Odin dependencies failed with exit code: '' @ show_int code)
      else Return ())"

definition pullOdinBuildDependencies :: "world \<Rightarrow> string \<Rightarrow> unit task" where
  "pullOdinBuildDependencies w llvm =
     (if os_platform w = ''darwin'' then
        Act (AddPath (''/usr/local/opt/llvm@'' @ llvm @ ''/bin''))
          (bind (exec_exec w ''brew'' [''install'', ''llvm@'' @ llvm] None) check_code)
      else if os_platform w = ''linux'' then
        Act (Which (''llvm-'' @ llvm))
          (Await
             (case on_which w (''llvm-'' @ llvm) of
                Inr _ \<Rightarrow>
                  Act (Info (''LLVM '' @ llvm @ '' comes pre-installed on this runner''))
                    (check_code 0)
              | Inl _ \<Rightarrow>
                  bind (exec_exec w ''sudo''
                          [''apt-fast'', ''install'', ''llvm-'' @ llvm @ ''-dev'', ''clang-'' @ llvm]
                          None)
                    check_code))
      else if os_platform w = ''win32'' then Return ()
      else Throw (''Operating system '' @ os_platform w @ '' is not supported by setup-odin''))"

subsection \<open>\<open>Promise.all\<close> of two promises\<close>

text \<open>
  \<open>Promise.all([f(), g()])\<close>. JavaScript runs one function at a time, and a function
  that runs keeps running until it suspends or ends. The two asynchronous functions are
  called one after the other: the first runs to its first suspension, then the second
  (the first two equations, in this order). An outside operation never finishes in the
  turn that started it, so from then on both functions are suspended or have ended, and
  the schedule says which of two suspended functions is resumed next (\<open>True\<close>: the
  first; an exhausted schedule resumes the first). Every order in which the outside
  operations of the two functions can finish is the run under some schedule.

  The result has three parts: the events up to the moment \<open>Promise.all\<close> settles, how it
  settles (rejected with the message of the first rejection, or fulfilled with both
  values), and the events of the function that is still running when \<open>Promise.all\<close>
  has been rejected: nothing cancels it, and its own later rejection is ignored.
\<close>

fun emit :: "event \<Rightarrow> event list \<times> 'r \<times> event list \<Rightarrow> event list \<times> 'r \<times> event list" where
  "emit e (es, r, late) = (e # es, r, late)"

fun Promise_all ::
  "bool list \<Rightarrow> 'a task \<Rightarrow> 'b task \<Rightarrow> event list \<times> (string + 'a \<times> 'b) \<times> event list" where
  "Promise_all s (Act e a) b = emit e (Promise_all s a b)"
| "Promise_all s a (Act e b) = emit e (Promise_all s a b)"
| "Promise_all s (Throw m) b = ([], Inl m, effects b)"
| "Promise_all s a (Throw m) = ([], Inl m, effects a)"
| "Promise_all s (Return x) (Return y) = ([], Inr (x, y), [])"
| "Promise_all s (Return x) (Await b) = Promise_all s (Return x) b"
| "Promise_all s (Await a) (Return y) = Promise_all s a (Return y)"
| "Promise_all [] (Await a) (Await b) = Promise_all [] a (Await b)"
| "Promise_all (first # s) (Await a) (Await b) =
     (if first then Promise_all s a (Await b) else Promise_all s (Await a) b)"

subsection \<open>\<open>run\<close>\<close>

text \<open>
  Lines 34 to 59 of \<open>run\<close>: the outputs of a rebuild and the build itself.
  \<open>buildExitCode\<close> stays \<open>undefined\<close> (\<open>None\<close>) when no case of the switch matches.
\<close>

definition show_code :: "int option \<Rightarrow> string" where
  "show_code code = (case code of None \<Rightarrow> ''undefined'' | Some n \<Rightarrow> show_int n)"

definition build :: "world \<Rightarrow> inputs \<Rightarrow> string \<Rightarrow> unit task" where
  "build w inp path =
     Act (SetOutput ''cache-hit'' False)
       (Act (SaveState ''cache-hit'' ''false'')
          (bind
             (if os_platform w = ''darwin'' \<or> os_platform w = ''linux''
              then bind (exec_exec w ''./build_odin.sh'' [buildType inp] (Some path))
                     (\<lambda>n. Return (Some n))
              else if os_platform w = ''win32''
              then bind (exec_exec w ''./build.bat'' [buildType inp] (Some path))
                     (\<lambda>n. Return (Some n))
              else Return None)
             (\<lambda>buildExitCode.
                if buildExitCode \<noteq> Some 0
                then Throw (''Building Odin failed with exit code: '' @ show_code buildExitCode)
                else Act (Info ''Successfully set up Odin compiler'') (Return ()))))"

text \<open>The \<open>catch\<close> of line 60, around a task that nothing runs beside.\<close>

definition catch :: "unit task \<Rightarrow> event list" where
  "catch t = effects t @ (case outcome t of Inl m \<Rightarrow> [SetFailed m] | Inr _ \<Rightarrow> [])"

text \<open>
  \<open>run\<close>, lines 11 to 63, as the list of all toolkit calls of one run of the action in
  the order they are made, under the schedule \<open>s\<close>.
\<close>

definition run :: "common \<Rightarrow> world \<Rightarrow> bool list \<Rightarrow> event list" where
  "run c w s =
     (case getInputs c of
        Inl m \<Rightarrow> [SetFailed m]
      | Inr inp \<Rightarrow>
          AddPath (odinPath c) #
          (if cacheCheck c inp then
             (case Promise_all s (restoreCache c w inp (odinPath c))
                     (pullOdinBuildDependencies w (llvmVersion inp)) of
                (early, Inl m, late) \<Rightarrow> early @ [SetFailed m] @ late
              | (early, Inr (cacheSuccess, _), late) \<Rightarrow>
                  early @ (if cacheSuccess then [] else catch (build w inp (odinPath c))) @ late)
           else
             (case Promise_all s (pullOdin c w (repository inp) (odinVersion inp))
                     (pullOdinBuildDependencies w (llvmVersion inp)) of
                (early, Inl m, late) \<Rightarrow> early @ [SetFailed m] @ late
              | (early, Inr _, late) \<Rightarrow> early @ catch (build w inp (odinPath c)) @ late)))"

subsection \<open>What a run is observed to do\<close>

text \<open>
  The external build command of lines 41 and 50; a \<open>git\<close> sub-command (\<open>clone\<close> in
  \<open>pullOdin\<close>, \<open>pull\<close> in \<open>pullUpdates\<close>); a query of the cache store; the failure report
  of line 61; the \<open>cache-hit\<close> output and saved state.
\<close>

fun is_build :: "event \<Rightarrow> bool" where
  "is_build (Exec cmd args cwd) = (cmd = ''./build_odin.sh'' \<or> cmd = ''./build.bat'')"
| "is_build _ = False"

fun is_git :: "string \<Rightarrow> event \<Rightarrow> bool" where
  "is_git sub (Exec cmd args cwd) = (cmd = ''git'' \<and> take 1 args = [sub])"
| "is_git sub (GetExecOutput cmd args cwd) = (cmd = ''git'' \<and> take 1 args = [sub])"
| "is_git sub _ = False"

fun is_cache_query :: "event \<Rightarrow> bool" where
  "is_cache_query (RestoreCache paths key) = True"
| "is_cache_query _ = False"

fun is_failure :: "event \<Rightarrow> bool" where
  "is_failure (SetFailed m) = True"
| "is_failure _ = False"

fun reports_cache_hit :: "event \<Rightarrow> bool" where
  "reports_cache_hit (SetOutput name v) = (name = ''cache-hit'')"
| "reports_cache_hit (SaveState name v) = (name = ''cache-hit'')"
| "reports_cache_hit _ = False"

subsection \<open>Example runs\<close>

text \<open>
  Concrete inputs, a concrete \<open>./common\<close> (caching on or off) and a family of worlds: the
  platform, the key the cache store restores, the standard output of \<open>git pull\<close>, and the
  exit codes of \<open>git clone\<close>, of the package manager and of the build script. \<open>io.which\<close>
  finds nothing.
\<close>

definition example_inputs :: inputs where
  "example_inputs =
     \<lparr>repository = ''https://github.com/odin-lang/Odin'', odinVersion = ''master'',
      llvmVersion = ''14'', buildType = ''debug''\<rparr>"

definition example_common :: "bool \<Rightarrow> common" where
  "example_common cached =
     \<lparr>getInputs = Inr example_inputs, odinPath = ''/opt/odin'',
      cacheCheck = (\<lambda>inp. cached),
      composeCacheKey = (\<lambda>inp. ''odin-'' @ odinVersion inp @ ''-'' @ buildType inp),
      cachePaths = [''/opt/odin'']\<rparr>"

definition example_world ::
  "string \<Rightarrow> string option \<Rightarrow> string \<Rightarrow> int \<Rightarrow> int \<Rightarrow> int \<Rightarrow> world" where
  "example_world platform restored pulled clone install built =
     \<lparr>os_platform = platform,
      on_exec = (\<lambda>cmd args cwd.
        Inr (if cmd = ''git'' then clone
             else if cmd = ''brew'' \<or> cmd = ''sudo'' then install
             else built)),
      on_getExecOutput = (\<lambda>cmd args cwd. Inr \<lparr>exitCode = 0, stdout = pulled, stderr = []\<rparr>),
      on_restoreCache = (\<lambda>paths key. Inr restored),
      on_which = (\<lambda>tool. Inl ''not found'')\<rparr>"

text \<open>
  What \<open>exec.exec\<close> of \<open>@actions/exec\<close> answers when it is called as \<open>index.js\<close> calls
  it, without the option \<open>ignoreReturnCode\<close>: only a process that exits with code 0
  makes the promise resolve; any other exit code makes it reject, with a message that
  names the resolved path of the tool and the exit code.
\<close>

definition exec_rejection :: "string \<Rightarrow> int \<Rightarrow> string" where
  "exec_rejection toolPath code =
     ''The process '' @ [CHR 0x27] @ toolPath @ [CHR 0x27] @ '' failed with exit code ''
       @ show_int code"

definition exec_answer :: "string \<Rightarrow> int \<Rightarrow> string + int" where
  "exec_answer toolPath code = (if code \<noteq> 0 then Inl (exec_rejection toolPath code) else Inr 0)"

text \<open>
  The same family of worlds with the answers of the toolkit: \<open>exec.exec\<close> answers as
  above, for tools installed where a runner has them, and \<open>io.which\<close>, called without
  its \<open>check\<close> argument, resolves to the empty string for a tool it does not find.
\<close>

definition tool_path :: "string \<Rightarrow> string" where
  "tool_path cmd =
     (if cmd = ''git'' then ''/usr/bin/git''
      else if cmd = ''brew'' then ''/usr/local/bin/brew''
      else if cmd = ''sudo'' then ''/usr/bin/sudo''
      else ''/opt/odin/'' @ drop 2 cmd)"

definition toolkit_world ::
  "string \<Rightarrow> string option \<Rightarrow> string \<Rightarrow> int \<Rightarrow> int \<Rightarrow> int \<Rightarrow> world" where
  "toolkit_world platform restored pulled clone install built =
     \<lparr>os_platform = platform,
      on_exec = (\<lambda>cmd args cwd.
        exec_answer (tool_path cmd)
          (if cmd = ''git'' then clone
           else if cmd = ''brew'' \<or> cmd = ''sudo'' then install
           else built)),
      on_getExecOutput = (\<lambda>cmd args cwd. Inr \<lparr>exitCode = 0, stdout = pulled, stderr = []\<rparr>),
      on_restoreCache = (\<lambda>paths key. Inr restored),
      on_which = (\<lambda>tool. Inr [])\<rparr>"

section \<open>Properties\<close>

subsection \<open>Tasks and \<open>Promise.all\<close>\<close>

lemma effects_bind:
  "effects (bind t k) = effects t @ (case outcome t of Inl m \<Rightarrow> [] | Inr x \<Rightarrow> effects (k x))"
  by (induction t) simp_all

lemma outcome_bind:
  "outcome (bind t k) = (case outcome t of Inl m \<Rightarrow> Inl m | Inr x \<Rightarrow> outcome (k x))"
  by (induction t) simp_all

lemma effects_of_answer: "effects (of_answer r) = []"
  by (cases r) (simp_all add: of_answer_def)

lemma outcome_of_answer: "outcome (of_answer r) = r"
  by (cases r) (simp_all add: of_answer_def)

lemma emit_parts:
  "fst (emit e p) = e # fst p"
  "fst (snd (emit e p)) = fst (snd p)"
  "snd (snd (emit e p)) = snd (snd p)"
  by (cases p; simp)+

text \<open>Every call of both functions is made, once, whatever the schedule and the result.\<close>

lemma Promise_all_mset_parts:
  "mset (fst (Promise_all s a b)) + mset (snd (snd (Promise_all s a b)))
     = mset (effects a) + mset (effects b)"
  by (induction s a b rule: Promise_all.induct) (simp_all add: emit_parts)

lemma Promise_all_fulfilled_parts:
  "fst (snd (Promise_all s a b)) = Inr (x, y) \<Longrightarrow>
     outcome a = Inr x \<and> outcome b = Inr y \<and> snd (snd (Promise_all s a b)) = []"
  by (induction s a b rule: Promise_all.induct) (simp_all add: emit_parts split: if_splits)

lemma Promise_all_rejected_parts:
  "fst (snd (Promise_all s a b)) = Inl m \<Longrightarrow> outcome a = Inl m \<or> outcome b = Inl m"
  by (induction s a b rule: Promise_all.induct) (simp_all add: emit_parts split: if_splits)

lemma Promise_all_mset:
  "Promise_all s a b = (early, r, late) \<Longrightarrow>
     mset (early @ late) = mset (effects a) + mset (effects b)"
  using Promise_all_mset_parts [of s a b] by simp

lemma Promise_all_fulfilled:
  "Promise_all s a b = (early, Inr (x, y), late) \<Longrightarrow>
     outcome a = Inr x \<and> outcome b = Inr y \<and> late = []"
  using Promise_all_fulfilled_parts [of s a b x y] by simp

lemma Promise_all_rejected:
  "Promise_all s a b = (early, Inl m, late) \<Longrightarrow> outcome a = Inl m \<or> outcome b = Inl m"
  using Promise_all_rejected_parts [of s a b m] by simp

subsection \<open>What each function does and how it ends\<close>

lemma effects_pullOdin:
  "effects (pullOdin c w repo version) =
     [Exec ''git'' [''clone'', repo, odinPath c, ''--branch'', version,
                    ''--depth=1'', ''--single-branch'', ''--no-tags''] None]"
  by (simp add: pullOdin_def exec_exec_def effects_bind effects_of_answer outcome_of_answer split: sum.splits)

lemma outcome_pullOdin:
  "outcome (pullOdin c w repo version) =
     (case on_exec w ''git'' [''clone'', repo, odinPath c, ''--branch'', version,
                    ''--depth=1'', ''--single-branch'', ''--no-tags''] None of
        Inl m \<Rightarrow> Inl m
      | Inr code \<Rightarrow> if code \<noteq> 0 then Inl (''Git clone failed with exit code: '' @ show_int code
                        @ '', are you sure that version exists?'') else Inr ())"
  by (simp add: pullOdin_def exec_exec_def outcome_bind outcome_of_answer split: sum.splits)

lemma effects_pullUpdates:
  "effects (pullUpdates w path version) = [GetExecOutput ''git'' [''pull'', ''origin'', version] (Some path)]"
  by (simp add: pullUpdates_def exec_getExecOutput_def effects_bind effects_of_answer outcome_of_answer split: sum.splits)

lemma outcome_pullUpdates:
  "outcome (pullUpdates w path version) =
     (case on_getExecOutput w ''git'' [''pull'', ''origin'', version] (Some path) of
        Inl m \<Rightarrow> Inl m
      | Inr output \<Rightarrow> Inr (str_includes (stdout output) ''Already up to date.''))"
  by (simp add: pullUpdates_def exec_getExecOutput_def outcome_bind outcome_of_answer split: sum.splits)

lemma effects_restoreCache:
  "effects (restoreCache c w inp path) =
     RestoreCache (cachePaths c) (composeCacheKey c inp) #
     (case on_restoreCache w (cachePaths c) (composeCacheKey c inp) of
        Inl m \<Rightarrow> []
      | Inr restoredKey \<Rightarrow>
          if Some (composeCacheKey c inp) = restoredKey
          then Info ''Cache HIT, checking if it is still up-to-date'' #
               effects (pullUpdates w path (odinVersion inp)) @
               (case outcome (pullUpdates w path (odinVersion inp)) of
                  Inl m \<Rightarrow> []
                | Inr current \<Rightarrow>
                    if current
                    then [Info ''Cache is still up-to-date'', SetOutput ''cache-hit'' True,
                          SaveState ''cache-hit'' ''true'', Info ''Successfully set up Odin compiler'']
                    else [Info ''Cache is not up-to-date, rebuilding the compiler now''])
          else Info ''Cache MISS'' # effects (pullOdin c w (repository inp) (odinVersion inp)))"
  by (simp add: restoreCache_def cache_restoreCache_def effects_bind effects_of_answer
      outcome_of_answer Let_def split: sum.splits)

lemma outcome_restoreCache:
  "outcome (restoreCache c w inp path) =
     (case on_restoreCache w (cachePaths c) (composeCacheKey c inp) of
        Inl m \<Rightarrow> Inl m
      | Inr restoredKey \<Rightarrow>
          if Some (composeCacheKey c inp) = restoredKey
          then outcome (pullUpdates w path (odinVersion inp))
          else (case outcome (pullOdin c w (repository inp) (odinVersion inp)) of
                  Inl m \<Rightarrow> Inl m | Inr _ \<Rightarrow> Inr False))"
  by (simp add: restoreCache_def cache_restoreCache_def outcome_bind
      outcome_of_answer Let_def split: sum.splits)

lemma outcome_check_code:
  "outcome (check_code code) = (if code \<noteq> 0 then Inl (''Installing Odin dependencies failed with exit code: '' @ show_int code) else Inr ())"
  by (simp add: check_code_def)

lemma effects_check_code: "effects (check_code code) = []"
  by (simp add: check_code_def)

lemma no_build_pullOdinBuildDependencies:
  "e \<in> set (effects (pullOdinBuildDependencies w llvm)) \<Longrightarrow>
     \<not> is_build e \<and> \<not> is_git sub e \<and> \<not> is_cache_query e \<and> \<not> reports_cache_hit e \<and> \<not> is_failure e"
  by (auto simp add: pullOdinBuildDependencies_def exec_exec_def effects_bind effects_of_answer
      outcome_of_answer effects_check_code split: sum.splits if_splits)

lemma effects_build:
  "effects (build w inp path) =
     [SetOutput ''cache-hit'' False, SaveState ''cache-hit'' ''false''] @
     (if os_platform w = ''darwin'' \<or> os_platform w = ''linux''
      then [Exec ''./build_odin.sh'' [buildType inp] (Some path)] @
           (if on_exec w ''./build_odin.sh'' [buildType inp] (Some path) = Inr 0
            then [Info ''Successfully set up Odin compiler''] else [])
      else if os_platform w = ''win32''
      then [Exec ''./build.bat'' [buildType inp] (Some path)] @
           (if on_exec w ''./build.bat'' [buildType inp] (Some path) = Inr 0
            then [Info ''Successfully set up Odin compiler''] else [])
      else [])"
  by (auto simp add: build_def exec_exec_def effects_bind outcome_bind effects_of_answer
      outcome_of_answer split: sum.splits)

lemma outcome_build:
  "outcome (build w inp path) =
     (if os_platform w = ''darwin'' \<or> os_platform w = ''linux''
      then (case on_exec w ''./build_odin.sh'' [buildType inp] (Some path) of
              Inl m \<Rightarrow> Inl m
            | Inr n \<Rightarrow> if n \<noteq> 0 then Inl (''Building Odin failed with exit code: '' @ show_int n) else Inr ())
      else if os_platform w = ''win32''
      then (case on_exec w ''./build.bat'' [buildType inp] (Some path) of
              Inl m \<Rightarrow> Inl m
            | Inr n \<Rightarrow> if n \<noteq> 0 then Inl (''Building Odin failed with exit code: '' @ show_int n) else Inr ())
      else Inl ''Building Odin failed with exit code: undefined'')"
  by (auto simp add: build_def exec_exec_def effects_bind outcome_bind effects_of_answer
      outcome_of_answer show_code_def split: sum.splits)

subsection \<open>The shapes of a run\<close>

lemma run_cached_cases:
  assumes "getInputs c = Inr inp" and "cacheCheck c inp"
  obtains
    (rejected) early m late where
      "run c w s = AddPath (odinPath c) # early @ SetFailed m # late"
      "outcome (restoreCache c w inp (odinPath c)) = Inl m
         \<or> outcome (pullOdinBuildDependencies w (llvmVersion inp)) = Inl m"
      "mset (early @ late) = mset (effects (restoreCache c w inp (odinPath c)))
         + mset (effects (pullOdinBuildDependencies w (llvmVersion inp)))"
  | (hit) early where
      "run c w s = AddPath (odinPath c) # early"
      "outcome (restoreCache c w inp (odinPath c)) = Inr True"
      "outcome (pullOdinBuildDependencies w (llvmVersion inp)) = Inr ()"
      "mset early = mset (effects (restoreCache c w inp (odinPath c)))
         + mset (effects (pullOdinBuildDependencies w (llvmVersion inp)))"
  | (rebuild) early where
      "run c w s = AddPath (odinPath c) # early @ catch (build w inp (odinPath c))"
      "outcome (restoreCache c w inp (odinPath c)) = Inr False"
      "outcome (pullOdinBuildDependencies w (llvmVersion inp)) = Inr ()"
      "mset early = mset (effects (restoreCache c w inp (odinPath c)))
         + mset (effects (pullOdinBuildDependencies w (llvmVersion inp)))"
proof -
  let ?a = "restoreCache c w inp (odinPath c)"
  let ?b = "pullOdinBuildDependencies w (llvmVersion inp)"
  obtain early r late where P: "Promise_all s ?a ?b = (early, r, late)"
    by (cases "Promise_all s ?a ?b") auto
  note M = Promise_all_mset [OF P]
  show thesis
  proof (cases r)
    case (Inl m)
    have "run c w s = AddPath (odinPath c) # early @ SetFailed m # late"
      using assms P Inl by (simp add: run_def)
    moreover have "outcome ?a = Inl m \<or> outcome ?b = Inl m"
      using Promise_all_rejected P Inl by blast
    ultimately show ?thesis using M rejected by blast
  next
    case (Inr xy)
    obtain x y where xy: "xy = (x, y)" by (cases xy) auto
    have F: "outcome ?a = Inr x" "outcome ?b = Inr y" "late = []"
      using Promise_all_fulfilled [of s ?a ?b early x y late] P Inr xy by simp_all
    have R: "run c w s = AddPath (odinPath c) # early @ (if x then [] else catch (build w inp (odinPath c)))"
      using assms P Inr xy F by (simp add: run_def)
    show ?thesis
    proof (cases x)
      case True
      then show ?thesis using hit [of early] R F M by simp
    next
      case False
      then show ?thesis using rebuild [of early] R F M by simp
    qed
  qed
qed

lemma run_uncached_cases:
  assumes "getInputs c = Inr inp" and "\<not> cacheCheck c inp"
  obtains
    (rejected) early m late where
      "run c w s = AddPath (odinPath c) # early @ SetFailed m # late"
      "outcome (pullOdin c w (repository inp) (odinVersion inp)) = Inl m
         \<or> outcome (pullOdinBuildDependencies w (llvmVersion inp)) = Inl m"
      "mset (early @ late) = mset (effects (pullOdin c w (repository inp) (odinVersion inp)))
         + mset (effects (pullOdinBuildDependencies w (llvmVersion inp)))"
  | (rebuild) early where
      "run c w s = AddPath (odinPath c) # early @ catch (build w inp (odinPath c))"
      "outcome (pullOdin c w (repository inp) (odinVersion inp)) = Inr ()"
      "outcome (pullOdinBuildDependencies w (llvmVersion inp)) = Inr ()"
      "mset early = mset (effects (pullOdin c w (repository inp) (odinVersion inp)))
         + mset (effects (pullOdinBuildDependencies w (llvmVersion inp)))"
proof -
  let ?a = "pullOdin c w (repository inp) (odinVersion inp)"
  let ?b = "pullOdinBuildDependencies w (llvmVersion inp)"
  obtain early r late where P: "Promise_all s ?a ?b = (early, r, late)"
    by (cases "Promise_all s ?a ?b") auto
  note M = Promise_all_mset [OF P]
  show thesis
  proof (cases r)
    case (Inl m)
    have "run c w s = AddPath (odinPath c) # early @ SetFailed m # late"
      using assms P Inl by (simp add: run_def)
    moreover have "outcome ?a = Inl m \<or> outcome ?b = Inl m"
      using Promise_all_rejected P Inl by blast
    ultimately show ?thesis using M rejected by blast
  next
    case (Inr xy)
    obtain x y where xy: "xy = (x, y)" by (cases xy) auto
    have F: "outcome ?a = Inr x" "outcome ?b = Inr y" "late = []"
      using Promise_all_fulfilled [of s ?a ?b early x y late] P Inr xy by simp_all
    have R: "run c w s = AddPath (odinPath c) # early @ catch (build w inp (odinPath c))"
      using assms P Inr xy F by (simp add: run_def)
    show ?thesis using rebuild [of early] R F M by simp
  qed
qed

subsection \<open>Containment in a string\<close>

lemma str_includes_iff: "str_includes s sub \<longleftrightarrow> (\<exists>p q. s = p @ sub @ q)"
proof (induction s)
  case Nil
  then show ?case by simp
next
  case (Cons c s)
  show ?case
  proof
    assume "str_includes (c # s) sub"
    then consider "prefix sub (c # s)" | "str_includes s sub" by auto
    then show "\<exists>p q. c # s = p @ sub @ q"
    proof cases
      case 1
      then obtain q where "c # s = sub @ q" by (auto simp: prefix_def)
      then have "c # s = [] @ sub @ q" by simp
      then show ?thesis by blast
    next
      case 2
      then obtain p q where "s = p @ sub @ q" using Cons.IH by blast
      then have "c # s = (c # p) @ sub @ q" by simp
      then show ?thesis by blast
    qed
  next
    assume "\<exists>p q. c # s = p @ sub @ q"
    then obtain p q where E: "c # s = p @ sub @ q" by blast
    show "str_includes (c # s) sub"
    proof (cases p)
      case Nil
      then have "prefix sub (c # s)" using E by (simp add: prefix_def)
      then show ?thesis by simp
    next
      case (Cons d p')
      then have "s = p' @ sub @ q" using E by simp
      then have "str_includes s sub" using Cons.IH by blast
      then show ?thesis by simp
    qed
  qed
qed

subsection \<open>Where the calls of a run come from\<close>

lemma set_of_mset_sum: "mset xs = mset a + mset b \<Longrightarrow> set xs = set a \<union> set b"
  by (metis mset_append mset_eq_setD set_append)

lemma events_pullOdin:
  "e \<in> set (effects (pullOdin c w repo version)) \<Longrightarrow>
     \<not> is_build e \<and> \<not> is_failure e \<and> \<not> is_cache_query e \<and> \<not> reports_cache_hit e
     \<and> \<not> is_git ''pull'' e"
  by (simp add: effects_pullOdin)

lemma events_restoreCache:
  "e \<in> set (effects (restoreCache c w inp path)) \<Longrightarrow> \<not> is_build e \<and> \<not> is_failure e"
  by (auto simp add: effects_restoreCache effects_pullUpdates effects_pullOdin
      split: sum.splits if_splits)

lemma events_build:
  "e \<in> set (effects (build w inp path)) \<Longrightarrow>
     \<not> is_git sub e \<and> \<not> is_cache_query e \<and> \<not> is_failure e"
  by (auto simp add: effects_build split: if_splits)

lemma is_build_catch:
  "e \<in> set (catch (build w inp path)) \<Longrightarrow> is_build e \<Longrightarrow>
     e \<in> set (effects (build w inp path))"
  by (auto simp add: catch_def split: sum.splits)

text \<open>
  The build command is called only from lines 41 and 50, after both concurrent functions
  have succeeded.
\<close>

lemma build_in_run:
  assumes "e \<in> set (run c w s)" and "is_build e"
  obtains inp early where
    "getInputs c = Inr inp"
    "run c w s = AddPath (odinPath c) # early @ catch (build w inp (odinPath c))"
    "e \<in> set (effects (build w inp (odinPath c)))"
    "outcome (pullOdinBuildDependencies w (llvmVersion inp)) = Inr ()"
    "\<forall>x \<in> set early. \<not> is_build x"
proof (cases "getInputs c")
  case (Inl m)
  then have "run c w s = [SetFailed m]" by (simp add: run_def)
  then show ?thesis using assms by auto
next
  case (Inr inp)
  let ?b = "pullOdinBuildDependencies w (llvmVersion inp)"
  have B: "\<And>x. x \<in> set (effects ?b) \<Longrightarrow> \<not> is_build x"
    using no_build_pullOdinBuildDependencies by blast
  show ?thesis
  proof (cases "cacheCheck c inp")
    case True
    let ?a = "restoreCache c w inp (odinPath c)"
    have A: "\<And>x. x \<in> set (effects ?a) \<Longrightarrow> \<not> is_build x"
      using events_restoreCache by blast
    from Inr True show ?thesis
    proof (cases rule: run_cached_cases [where w = w and s = s])
      case (rejected early m late)
      from rejected(3) have "set (early @ late) = set (effects ?a) \<union> set (effects ?b)"
        by (rule set_of_mset_sum)
      then have "\<And>x. x \<in> set early \<union> set late \<Longrightarrow> \<not> is_build x"
        using A B by auto
      then show ?thesis using assms rejected(1) by auto
    next
      case (hit early)
      from hit(4) have "set early = set (effects ?a) \<union> set (effects ?b)"
        by (rule set_of_mset_sum)
      then have "\<And>x. x \<in> set early \<Longrightarrow> \<not> is_build x"
        using A B by auto
      then show ?thesis using assms hit(1) by auto
    next
      case (rebuild early)
      from rebuild(4) have "set early = set (effects ?a) \<union> set (effects ?b)"
        by (rule set_of_mset_sum)
      then have E: "\<forall>x \<in> set early. \<not> is_build x"
        using A B by auto
      then have "e \<in> set (catch (build w inp (odinPath c)))"
        using assms rebuild(1) by auto
      then have "e \<in> set (effects (build w inp (odinPath c)))"
        using assms(2) by (rule is_build_catch)
      then show ?thesis using that Inr rebuild E by blast
    qed
  next
    case False
    let ?a = "pullOdin c w (repository inp) (odinVersion inp)"
    have A: "\<And>x. x \<in> set (effects ?a) \<Longrightarrow> \<not> is_build x"
      using events_pullOdin by blast
    from Inr False show ?thesis
    proof (cases rule: run_uncached_cases [where w = w and s = s])
      case (rejected early m late)
      from rejected(3) have "set (early @ late) = set (effects ?a) \<union> set (effects ?b)"
        by (rule set_of_mset_sum)
      then have "\<And>x. x \<in> set early \<union> set late \<Longrightarrow> \<not> is_build x"
        using A B by auto
      then show ?thesis using assms rejected(1) by auto
    next
      case (rebuild early)
      from rebuild(4) have "set early = set (effects ?a) \<union> set (effects ?b)"
        by (rule set_of_mset_sum)
      then have E: "\<forall>x \<in> set early. \<not> is_build x"
        using A B by auto
      then have "e \<in> set (catch (build w inp (odinPath c)))"
        using assms rebuild(1) by auto
      then have "e \<in> set (effects (build w inp (odinPath c)))"
        using assms(2) by (rule is_build_catch)
      then show ?thesis using that Inr rebuild E by blast
    qed
  qed
qed

lemma no_build_unless_deps:
  assumes "getInputs c = Inr inp"
    and "outcome (pullOdinBuildDependencies w (llvmVersion inp)) \<noteq> Inr ()"
  shows "\<not> list_ex is_build (run c w s)"
proof
  assume "list_ex is_build (run c w s)"
  then obtain e where "e \<in> set (run c w s)" "is_build e" by (auto simp: list_ex_iff)
  then obtain inp' where "getInputs c = Inr inp'"
    "outcome (pullOdinBuildDependencies w (llvmVersion inp')) = Inr ()"
    by (rule build_in_run)
  then show False using assms by simp
qed

lemma length_filter_mset: "mset xs = mset ys \<Longrightarrow> length (filter P xs) = length (filter P ys)"
  by (metis mset_filter size_mset)

text \<open>
  The calls of a run, up to their order: the path, every call of the two concurrent
  functions, and an ending that depends on how the two end.
\<close>

lemma run_cached_calls:
  assumes "getInputs c = Inr inp" and "cacheCheck c inp"
  obtains ending where
    "set (run c w s)
       = set (AddPath (odinPath c) # effects (restoreCache c w inp (odinPath c))
              @ effects (pullOdinBuildDependencies w (llvmVersion inp)) @ ending)"
    "\<And>P. length (filter P (run c w s))
       = length (filter P (AddPath (odinPath c) # effects (restoreCache c w inp (odinPath c))
                           @ effects (pullOdinBuildDependencies w (llvmVersion inp)) @ ending))"
    "outcome (restoreCache c w inp (odinPath c)) = Inr True
       \<and> outcome (pullOdinBuildDependencies w (llvmVersion inp)) = Inr () \<and> ending = []
     \<or> outcome (restoreCache c w inp (odinPath c)) = Inr False
       \<and> outcome (pullOdinBuildDependencies w (llvmVersion inp)) = Inr ()
       \<and> ending = catch (build w inp (odinPath c))
     \<or> (\<exists>m. (outcome (restoreCache c w inp (odinPath c)) = Inl m
              \<or> outcome (pullOdinBuildDependencies w (llvmVersion inp)) = Inl m)
            \<and> ending = [SetFailed m])"
  using assms
proof (cases rule: run_cached_cases [where w = w and s = s])
  case (rejected early m late)
  then have "mset (run c w s)
      = mset (AddPath (odinPath c) # effects (restoreCache c w inp (odinPath c))
              @ effects (pullOdinBuildDependencies w (llvmVersion inp)) @ [SetFailed m])"
    by simp
  then show ?thesis
    using that [of "[SetFailed m]"] rejected(2) mset_eq_setD length_filter_mset by blast
next
  case (hit early)
  then have "mset (run c w s)
      = mset (AddPath (odinPath c) # effects (restoreCache c w inp (odinPath c))
              @ effects (pullOdinBuildDependencies w (llvmVersion inp)) @ [])"
    by simp
  then show ?thesis
    using that [of "[]"] hit(2,3) mset_eq_setD length_filter_mset by blast
next
  case (rebuild early)
  then have "mset (run c w s)
      = mset (AddPath (odinPath c) # effects (restoreCache c w inp (odinPath c))
              @ effects (pullOdinBuildDependencies w (llvmVersion inp))
              @ catch (build w inp (odinPath c)))"
    by simp
  then show ?thesis
    using that [of "catch (build w inp (odinPath c))"] rebuild(2,3) mset_eq_setD
      length_filter_mset by blast
qed

lemma run_uncached_calls:
  assumes "getInputs c = Inr inp" and "\<not> cacheCheck c inp"
  obtains ending where
    "set (run c w s)
       = set (AddPath (odinPath c) # effects (pullOdin c w (repository inp) (odinVersion inp))
              @ effects (pullOdinBuildDependencies w (llvmVersion inp)) @ ending)"
    "\<And>P. length (filter P (run c w s))
       = length (filter P (AddPath (odinPath c)
                           # effects (pullOdin c w (repository inp) (odinVersion inp))
                           @ effects (pullOdinBuildDependencies w (llvmVersion inp)) @ ending))"
    "outcome (pullOdin c w (repository inp) (odinVersion inp)) = Inr ()
       \<and> outcome (pullOdinBuildDependencies w (llvmVersion inp)) = Inr ()
       \<and> ending = catch (build w inp (odinPath c))
     \<or> (\<exists>m. (outcome (pullOdin c w (repository inp) (odinVersion inp)) = Inl m
              \<or> outcome (pullOdinBuildDependencies w (llvmVersion inp)) = Inl m)
            \<and> ending = [SetFailed m])"
  using assms
proof (cases rule: run_uncached_cases [where w = w and s = s])
  case (rejected early m late)
  then have "mset (run c w s)
      = mset (AddPath (odinPath c) # effects (pullOdin c w (repository inp) (odinVersion inp))
              @ effects (pullOdinBuildDependencies w (llvmVersion inp)) @ [SetFailed m])"
    by simp
  then show ?thesis
    using that [of "[SetFailed m]"] rejected(2) mset_eq_setD length_filter_mset by blast
next
  case (rebuild early)
  then have "mset (run c w s)
      = mset (AddPath (odinPath c) # effects (pullOdin c w (repository inp) (odinVersion inp))
              @ effects (pullOdinBuildDependencies w (llvmVersion inp))
              @ catch (build w inp (odinPath c)))"
    by simp
  then show ?thesis
    using that [of "catch (build w inp (odinPath c))"] rebuild(2,3) mset_eq_setD
      length_filter_mset by blast
qed

lemma filter_deps:
  "filter is_build (effects (pullOdinBuildDependencies w llvm)) = []"
  "filter (is_git sub) (effects (pullOdinBuildDependencies w llvm)) = []"
  "filter is_cache_query (effects (pullOdinBuildDependencies w llvm)) = []"
  "filter reports_cache_hit (effects (pullOdinBuildDependencies w llvm)) = []"
  "filter is_failure (effects (pullOdinBuildDependencies w llvm)) = []"
  using no_build_pullOdinBuildDependencies [of _ w llvm sub]
  by (simp_all add: filter_empty_conv)

lemma filter_catch_build:
  "filter (is_git sub) (catch (build w inp path)) = []"
  "filter is_cache_query (catch (build w inp path)) = []"
  by (simp_all add: catch_def effects_build split: sum.splits)

lemma list_ex_filter: "list_ex P xs \<longleftrightarrow> 0 < length (filter P xs)"
  by (simp add: list_ex_iff filter_empty_conv)

lemma filter_restoreCache:
  "filter is_build (effects (restoreCache c w inp path)) = []"
  "filter is_failure (effects (restoreCache c w inp path)) = []"
  using events_restoreCache [of _ c w inp path] by (simp_all add: filter_empty_conv)

lemma filter_pullOdin:
  "filter is_build (effects (pullOdin c w repo version)) = []"
  "filter is_failure (effects (pullOdin c w repo version)) = []"
  "filter is_cache_query (effects (pullOdin c w repo version)) = []"
  "filter reports_cache_hit (effects (pullOdin c w repo version)) = []"
  "filter (is_git ''pull'') (effects (pullOdin c w repo version)) = []"
  by (simp_all add: effects_pullOdin)

lemma clone_fails_restoreCache:
  assumes "list_ex (is_git ''clone'') (effects (restoreCache c w inp path))"
    and "outcome (pullOdin c w (repository inp) (odinVersion inp)) = Inl m"
  shows "outcome (restoreCache c w inp path) = Inl m"
    and "length (filter (is_git ''clone'') (effects (restoreCache c w inp path))) = 1"
  using assms
  by (auto simp add: effects_restoreCache outcome_restoreCache effects_pullUpdates
      effects_pullOdin split: sum.splits if_splits)

lemma restoreCache_candidate:
  assumes "on_restoreCache w (cachePaths c) (composeCacheKey c inp)
             = Inr (Some (composeCacheKey c inp))"
    and "outcome (pullUpdates w path (odinVersion inp)) = Inr current"
  shows "outcome (restoreCache c w inp path) = Inr current"
    and "effects (restoreCache c w inp path)
           = [RestoreCache (cachePaths c) (composeCacheKey c inp),
              Info ''Cache HIT, checking if it is still up-to-date'',
              GetExecOutput ''git'' [''pull'', ''origin'', odinVersion inp] (Some path)]
             @ (if current
                then [Info ''Cache is still up-to-date'', SetOutput ''cache-hit'' True,
                      SaveState ''cache-hit'' ''true'', Info ''Successfully set up Odin compiler'']
                else [Info ''Cache is not up-to-date, rebuilding the compiler now''])"
  using assms
  by (simp_all add: outcome_restoreCache effects_restoreCache effects_pullUpdates)

lemma deps_reports_nothing:
  "SetOutput n v \<notin> set (effects (pullOdinBuildDependencies w llvm))"
  "SaveState n x \<notin> set (effects (pullOdinBuildDependencies w llvm))"
  by (auto simp add: pullOdinBuildDependencies_def exec_exec_def effects_bind effects_of_answer
      outcome_of_answer effects_check_code split: sum.splits if_splits)

text \<open>The five ways \<open>restoreCache\<close> can go.\<close>

lemma restoreCache_cases:
  obtains
    (restore_failed) m where
      "outcome (restoreCache c w inp path) = Inl m"
      "effects (restoreCache c w inp path)
         = [RestoreCache (cachePaths c) (composeCacheKey c inp)]"
  | (pull_failed) m where
      "outcome (restoreCache c w inp path) = Inl m"
      "effects (restoreCache c w inp path)
         = [RestoreCache (cachePaths c) (composeCacheKey c inp),
            Info ''Cache HIT, checking if it is still up-to-date'',
            GetExecOutput ''git'' [''pull'', ''origin'', odinVersion inp] (Some path)]"
  | (confirmed)
      "outcome (restoreCache c w inp path) = Inr True"
      "effects (restoreCache c w inp path)
         = [RestoreCache (cachePaths c) (composeCacheKey c inp),
            Info ''Cache HIT, checking if it is still up-to-date'',
            GetExecOutput ''git'' [''pull'', ''origin'', odinVersion inp] (Some path),
            Info ''Cache is still up-to-date'', SetOutput ''cache-hit'' True,
            SaveState ''cache-hit'' ''true'', Info ''Successfully set up Odin compiler'']"
  | (stale)
      "outcome (restoreCache c w inp path) = Inr False"
      "effects (restoreCache c w inp path)
         = [RestoreCache (cachePaths c) (composeCacheKey c inp),
            Info ''Cache HIT, checking if it is still up-to-date'',
            GetExecOutput ''git'' [''pull'', ''origin'', odinVersion inp] (Some path),
            Info ''Cache is not up-to-date, rebuilding the compiler now'']"
  | (miss)
      "outcome (restoreCache c w inp path) \<noteq> Inr True"
      "effects (restoreCache c w inp path)
         = [RestoreCache (cachePaths c) (composeCacheKey c inp), Info ''Cache MISS'',
            Exec ''git'' [''clone'', repository inp, odinPath c, ''--branch'', odinVersion inp,
                          ''--depth=1'', ''--single-branch'', ''--no-tags''] None]"
proof (cases "on_restoreCache w (cachePaths c) (composeCacheKey c inp)")
  case (Inl m)
  then show ?thesis
    using restore_failed [of m] by (simp add: outcome_restoreCache effects_restoreCache)
next
  case (Inr restoredKey)
  show ?thesis
  proof (cases "Some (composeCacheKey c inp) = restoredKey")
    case True
    show ?thesis
    proof (cases "outcome (pullUpdates w path (odinVersion inp))")
      case (Inl m)
      then show ?thesis
        using pull_failed [of m] Inr True
        by (simp add: outcome_restoreCache effects_restoreCache effects_pullUpdates)
    next
      case current: (Inr current)
      show ?thesis
      proof (cases current)
        case True
        then show ?thesis
          using confirmed Inr \<open>Some (composeCacheKey c inp) = restoredKey\<close> current
          by (simp add: outcome_restoreCache effects_restoreCache effects_pullUpdates)
      next
        case False
        then show ?thesis
          using stale Inr \<open>Some (composeCacheKey c inp) = restoredKey\<close> current
          by (simp add: outcome_restoreCache effects_restoreCache effects_pullUpdates)
      qed
    qed
  next
    case False
    then show ?thesis
      using miss Inr
      by (simp add: outcome_restoreCache effects_restoreCache effects_pullOdin split: sum.splits)
  qed
qed

lemma restoreCache_reports:
  "SetOutput ''cache-hit'' True \<in> set (effects (restoreCache c w inp path))
     \<longleftrightarrow> outcome (restoreCache c w inp path) = Inr True"
  "SaveState ''cache-hit'' ''true'' \<in> set (effects (restoreCache c w inp path))
     \<longleftrightarrow> outcome (restoreCache c w inp path) = Inr True"
  "SetOutput ''cache-hit'' False \<notin> set (effects (restoreCache c w inp path))"
  "SaveState ''cache-hit'' ''false'' \<notin> set (effects (restoreCache c w inp path))"
  by (cases rule: restoreCache_cases [of c w inp path]; simp)+

lemma restoreCache_reports_only:
  "e \<in> set (effects (restoreCache c w inp path)) \<Longrightarrow> reports_cache_hit e \<Longrightarrow>
     e = SetOutput ''cache-hit'' True \<or> e = SaveState ''cache-hit'' ''true''"
  by (cases rule: restoreCache_cases [of c w inp path]; auto)

lemma catch_build_reports:
  "SetOutput ''cache-hit'' False \<in> set (catch (build w inp path))"
  "SaveState ''cache-hit'' ''false'' \<in> set (catch (build w inp path))"
  "SetOutput ''cache-hit'' True \<notin> set (catch (build w inp path))"
  "SaveState ''cache-hit'' ''true'' \<notin> set (catch (build w inp path))"
  by (simp_all add: catch_def effects_build split: sum.splits)

lemma catch_build_reports_only:
  "e \<in> set (catch (build w inp path)) \<Longrightarrow> reports_cache_hit e \<Longrightarrow>
     e = SetOutput ''cache-hit'' False \<or> e = SaveState ''cache-hit'' ''false''"
  by (auto simp add: catch_def effects_build split: sum.splits if_splits)

lemma cache_hit_reports_iff:
  assumes "getInputs c = Inr inp"
  shows "(SetOutput ''cache-hit'' True \<in> set (run c w s)
            \<longleftrightarrow> cacheCheck c inp \<and> outcome (restoreCache c w inp (odinPath c)) = Inr True)
         \<and> (SaveState ''cache-hit'' ''true'' \<in> set (run c w s)
            \<longleftrightarrow> cacheCheck c inp \<and> outcome (restoreCache c w inp (odinPath c)) = Inr True)
         \<and> (SetOutput ''cache-hit'' False \<in> set (run c w s)
            \<longleftrightarrow> outcome (pullOdinBuildDependencies w (llvmVersion inp)) = Inr ()
                \<and> (if cacheCheck c inp
                    then outcome (restoreCache c w inp (odinPath c)) = Inr False
                    else outcome (pullOdin c w (repository inp) (odinVersion inp)) = Inr ()))
         \<and> (SaveState ''cache-hit'' ''false'' \<in> set (run c w s)
            \<longleftrightarrow> outcome (pullOdinBuildDependencies w (llvmVersion inp)) = Inr ()
                \<and> (if cacheCheck c inp
                    then outcome (restoreCache c w inp (odinPath c)) = Inr False
                    else outcome (pullOdin c w (repository inp) (odinVersion inp)) = Inr ()))
         \<and> (\<forall>e \<in> set (run c w s). reports_cache_hit e \<longrightarrow>
               e = SetOutput ''cache-hit'' True \<or> e = SaveState ''cache-hit'' ''true''
               \<or> e = SetOutput ''cache-hit'' False \<or> e = SaveState ''cache-hit'' ''false'')"
proof (cases "cacheCheck c inp")
  case True
  let ?a = "restoreCache c w inp (odinPath c)"
  let ?b = "pullOdinBuildDependencies w (llvmVersion inp)"
  from assms True obtain ending where
    S: "set (run c w s) = set (AddPath (odinPath c) # effects ?a @ effects ?b @ ending)"
    and L: "\<And>P. length (filter P (run c w s))
          = length (filter P (AddPath (odinPath c) # effects ?a @ effects ?b @ ending))"
    and E: "outcome ?a = Inr True \<and> outcome ?b = Inr () \<and> ending = []
            \<or> outcome ?a = Inr False \<and> outcome ?b = Inr ()
              \<and> ending = catch (build w inp (odinPath c))
            \<or> (\<exists>m. (outcome ?a = Inl m \<or> outcome ?b = Inl m) \<and> ending = [SetFailed m])"
    by (rule run_cached_calls [where w = w and s = s]) (rule that)
  have S': "\<And>e. e \<in> set (run c w s) \<longleftrightarrow>
      e = AddPath (odinPath c) \<or> e \<in> set (effects ?a) \<or> e \<in> set (effects ?b) \<or> e \<in> set ending"
    unfolding S by auto
  have R: "\<forall>e \<in> set (run c w s). reports_cache_hit e \<longrightarrow>
               e = SetOutput ''cache-hit'' True \<or> e = SaveState ''cache-hit'' ''true''
               \<or> e = SetOutput ''cache-hit'' False \<or> e = SaveState ''cache-hit'' ''false''"
  proof (intro ballI impI)
    fix e assume e: "e \<in> set (run c w s)" and r: "reports_cache_hit e"
    from e S' consider "e = AddPath (odinPath c)" | "e \<in> set (effects ?a)"
      | "e \<in> set (effects ?b)" | "e \<in> set ending" by blast
    then show "e = SetOutput ''cache-hit'' True \<or> e = SaveState ''cache-hit'' ''true''
               \<or> e = SetOutput ''cache-hit'' False \<or> e = SaveState ''cache-hit'' ''false''"
    proof cases
      case 1
      then show ?thesis using r by simp
    next
      case 2
      then show ?thesis using r restoreCache_reports_only by blast
    next
      case 3
      then show ?thesis using r no_build_pullOdinBuildDependencies by blast
    next
      case 4
      from E have "ending = [] \<or> ending = catch (build w inp (odinPath c))
                    \<or> (\<exists>m. ending = [SetFailed m])" by blast
      then show ?thesis using 4 r catch_build_reports_only by fastforce
    qed
  qed
  from E consider
      (hit) "outcome ?a = Inr True" "outcome ?b = Inr ()" "ending = []"
    | (rebuild) "outcome ?a = Inr False" "outcome ?b = Inr ()"
        "ending = catch (build w inp (odinPath c))"
    | (rejected) m where "outcome ?a = Inl m \<or> outcome ?b = Inl m" "ending = [SetFailed m]"
    by blast
  then have "(SetOutput ''cache-hit'' True \<in> set (run c w s) \<longleftrightarrow> outcome ?a = Inr True)
         \<and> (SaveState ''cache-hit'' ''true'' \<in> set (run c w s) \<longleftrightarrow> outcome ?a = Inr True)
         \<and> (SetOutput ''cache-hit'' False \<in> set (run c w s)
              \<longleftrightarrow> outcome ?b = Inr () \<and> outcome ?a = Inr False)
         \<and> (SaveState ''cache-hit'' ''false'' \<in> set (run c w s)
              \<longleftrightarrow> outcome ?b = Inr () \<and> outcome ?a = Inr False)"
  proof cases
    case hit
    then show ?thesis
      by (simp add: S' restoreCache_reports deps_reports_nothing)
  next
    case rebuild
    then show ?thesis
      by (simp add: S' restoreCache_reports deps_reports_nothing catch_build_reports)
  next
    case (rejected m)
    then show ?thesis
      by (auto simp add: S' restoreCache_reports deps_reports_nothing)
  qed
  then show ?thesis using True R by simp
next
  case False
  let ?a = "pullOdin c w (repository inp) (odinVersion inp)"
  let ?b = "pullOdinBuildDependencies w (llvmVersion inp)"
  from assms False obtain ending where
    S: "set (run c w s) = set (AddPath (odinPath c) # effects ?a @ effects ?b @ ending)"
    and L: "\<And>P. length (filter P (run c w s))
          = length (filter P (AddPath (odinPath c) # effects ?a @ effects ?b @ ending))"
    and E: "outcome ?a = Inr () \<and> outcome ?b = Inr ()
              \<and> ending = catch (build w inp (odinPath c))
            \<or> (\<exists>m. (outcome ?a = Inl m \<or> outcome ?b = Inl m) \<and> ending = [SetFailed m])"
    by (rule run_uncached_calls [where w = w and s = s]) (rule that)
  have S': "\<And>e. e \<in> set (run c w s) \<longleftrightarrow>
      e = AddPath (odinPath c) \<or> e \<in> set (effects ?a) \<or> e \<in> set (effects ?b) \<or> e \<in> set ending"
    unfolding S by auto
  have R: "\<forall>e \<in> set (run c w s). reports_cache_hit e \<longrightarrow>
               e = SetOutput ''cache-hit'' True \<or> e = SaveState ''cache-hit'' ''true''
               \<or> e = SetOutput ''cache-hit'' False \<or> e = SaveState ''cache-hit'' ''false''"
  proof (intro ballI impI)
    fix e assume e: "e \<in> set (run c w s)" and r: "reports_cache_hit e"
    from e S' consider "e = AddPath (odinPath c)" | "e \<in> set (effects ?a)"
      | "e \<in> set (effects ?b)" | "e \<in> set ending" by blast
    then show "e = SetOutput ''cache-hit'' True \<or> e = SaveState ''cache-hit'' ''true''
               \<or> e = SetOutput ''cache-hit'' False \<or> e = SaveState ''cache-hit'' ''false''"
    proof cases
      case 1
      then show ?thesis using r by simp
    next
      case 2
      then show ?thesis using r events_pullOdin by blast
    next
      case 3
      then show ?thesis using r no_build_pullOdinBuildDependencies by blast
    next
      case 4
      from E have "ending = catch (build w inp (odinPath c)) \<or> (\<exists>m. ending = [SetFailed m])"
        by blast
      then show ?thesis using 4 r catch_build_reports_only by fastforce
    qed
  qed
  from E consider
      (rebuild) "outcome ?a = Inr ()" "outcome ?b = Inr ()"
        "ending = catch (build w inp (odinPath c))"
    | (rejected) m where "outcome ?a = Inl m \<or> outcome ?b = Inl m" "ending = [SetFailed m]"
    by blast
  then have "SetOutput ''cache-hit'' True \<notin> set (run c w s)
         \<and> SaveState ''cache-hit'' ''true'' \<notin> set (run c w s)
         \<and> (SetOutput ''cache-hit'' False \<in> set (run c w s)
              \<longleftrightarrow> outcome ?b = Inr () \<and> outcome ?a = Inr ())
         \<and> (SaveState ''cache-hit'' ''false'' \<in> set (run c w s)
              \<longleftrightarrow> outcome ?b = Inr () \<and> outcome ?a = Inr ())"
  proof cases
    case rebuild
    then show ?thesis
      by (simp add: S' effects_pullOdin deps_reports_nothing catch_build_reports)
  next
    case (rejected m)
    then show ?thesis
      by (auto simp add: S' effects_pullOdin deps_reports_nothing)
  qed
  then show ?thesis using False R by simp
qed

lemma deps_ok_platform:
  "outcome (pullOdinBuildDependencies w llvm) = Inr () \<Longrightarrow>
     os_platform w = ''darwin'' \<or> os_platform w = ''linux'' \<or> os_platform w = ''win32''"
  by (simp add: pullOdinBuildDependencies_def split: if_splits)

lemma catch_build_supported:
  assumes "os_platform w = ''darwin'' \<or> os_platform w = ''linux'' \<or> os_platform w = ''win32''"
  obtains cmd rest where
    "catch (build w inp path)
       = [SetOutput ''cache-hit'' False, SaveState ''cache-hit'' ''false'',
          Exec cmd [buildType inp] (Some path)] @ rest"
    "is_build (Exec cmd [buildType inp] (Some path))"
    "filter is_build rest = []"
proof (cases "os_platform w = ''win32''")
  case True
  show ?thesis
    by (rule that [of "''./build.bat''"
          "(if on_exec w ''./build.bat'' [buildType inp] (Some path) = Inr 0
            then [Info ''Successfully set up Odin compiler''] else [])
           @ (case outcome (build w inp path) of Inl m \<Rightarrow> [SetFailed m] | Inr x \<Rightarrow> [])"])
      (simp_all add: True catch_def effects_build split: sum.splits)
next
  case False
  with assms have P: "os_platform w = ''darwin'' \<or> os_platform w = ''linux''" by simp
  show ?thesis
    by (rule that [of "''./build_odin.sh''"
          "(if on_exec w ''./build_odin.sh'' [buildType inp] (Some path) = Inr 0
            then [Info ''Successfully set up Odin compiler''] else [])
           @ (case outcome (build w inp path) of Inl m \<Rightarrow> [SetFailed m] | Inr x \<Rightarrow> [])"])
      (simp_all add: P catch_def effects_build split: sum.splits)
qed

text \<open>A run that reaches line 34 with its dependencies installed builds once, after everything else.\<close>

lemma rebuild_after:
  assumes "run c w s = AddPath (odinPath c) # early @ catch (build w inp (odinPath c))"
    and "outcome (pullOdinBuildDependencies w (llvmVersion inp)) = Inr ()"
    and "filter is_build early = []"
  shows "length (filter is_build (run c w s)) = 1
         \<and> (\<exists>pre cmd post.
               run c w s = pre @ Exec cmd [buildType inp] (Some (odinPath c)) # post
               \<and> is_build (Exec cmd [buildType inp] (Some (odinPath c)))
               \<and> set early \<subseteq> set pre)"
proof -
  from assms(2) have "os_platform w = ''darwin'' \<or> os_platform w = ''linux''
      \<or> os_platform w = ''win32''"
    by (rule deps_ok_platform)
  then obtain cmd rest where
    C: "catch (build w inp (odinPath c))
       = [SetOutput ''cache-hit'' False, SaveState ''cache-hit'' ''false'',
          Exec cmd [buildType inp] (Some (odinPath c))] @ rest"
    and B: "is_build (Exec cmd [buildType inp] (Some (odinPath c)))"
    and R: "filter is_build rest = []"
    by (rule catch_build_supported)
  have 1: "length (filter is_build (run c w s)) = 1"
    using assms(1,3) C B R by simp
  have "run c w s
      = (AddPath (odinPath c) # early
          @ [SetOutput ''cache-hit'' False, SaveState ''cache-hit'' ''false''])
        @ Exec cmd [buildType inp] (Some (odinPath c)) # rest"
    using assms(1) C by simp
  moreover have "set early \<subseteq> set (AddPath (odinPath c) # early
          @ [SetOutput ''cache-hit'' False, SaveState ''cache-hit'' ''false''])"
    by auto
  ultimately show ?thesis using 1 B by blast
qed

lemma exec_exec_without_cache:
  "exec_exec (w\<lparr>on_restoreCache := f\<rparr>) cmd args cwd = exec_exec w cmd args cwd"
  by (simp add: exec_exec_def)

lemma world_without_cache:
  "pullOdin c (w\<lparr>on_restoreCache := f\<rparr>) repo version = pullOdin c w repo version"
  "pullOdinBuildDependencies (w\<lparr>on_restoreCache := f\<rparr>) llvm = pullOdinBuildDependencies w llvm"
  "build (w\<lparr>on_restoreCache := f\<rparr>) inp path = build w inp path"
  by (simp_all add: pullOdin_def pullOdinBuildDependencies_def build_def
      exec_exec_without_cache split: sum.splits)

lemma restoreCache_miss:
  assumes "on_restoreCache w (cachePaths c) (composeCacheKey c inp) = Inr restored"
    and "restored \<noteq> Some (composeCacheKey c inp)"
  shows "effects (restoreCache c w inp path)
           = [RestoreCache (cachePaths c) (composeCacheKey c inp), Info ''Cache MISS'',
              Exec ''git'' [''clone'', repository inp, odinPath c, ''--branch'', odinVersion inp,
                            ''--depth=1'', ''--single-branch'', ''--no-tags''] None]"
    and "outcome (restoreCache c w inp path)
           = (case outcome (pullOdin c w (repository inp) (odinVersion inp)) of
                Inl m \<Rightarrow> Inl m | Inr x \<Rightarrow> Inr False)"
  using assms
  by (auto simp add: effects_restoreCache outcome_restoreCache effects_pullOdin)

text \<open>
  What line 113 reports where \<open>exec.exec\<close> resolves with an exit code other than 0: the
  exit code and the suggestion that the version may not exist, after a single clone.
\<close>

lemma pullOdin_resolved_nonzero:
  assumes "on_exec w ''git''
             [''clone'', repo, odinPath c, ''--branch'', version,
              ''--depth=1'', ''--single-branch'', ''--no-tags''] None = Inr code"
    and "code \<noteq> 0"
  shows "outcome (pullOdin c w repo version)
           = Inl (''Git clone failed with exit code: '' @ show_int code
                    @ '', are you sure that version exists?'')
         \<and> effects (pullOdin c w repo version)
           = [Exec ''git'' [''clone'', repo, odinPath c, ''--branch'', version,
                            ''--depth=1'', ''--single-branch'', ''--no-tags''] None]
         \<and> (getInputs c = Inr inp \<and> repo = repository inp \<and> version = odinVersion inp
              \<and> list_ex (is_git ''clone'') (run c w s)
            \<longrightarrow> list_ex is_failure (run c w s) \<and> \<not> list_ex is_build (run c w s)
                \<and> length (filter (is_git ''clone'') (run c w s)) = 1)"
proof -
  let ?m = "''Git clone failed with exit code: '' @ show_int code
              @ '', are you sure that version exists?''"
  let ?b = "pullOdinBuildDependencies w (llvmVersion inp)"
  have O: "outcome (pullOdin c w repo version) = Inl ?m"
    using assms by (simp add: outcome_pullOdin)
  have "list_ex is_failure (run c w s) \<and> \<not> list_ex is_build (run c w s)
          \<and> length (filter (is_git ''clone'') (run c w s)) = 1"
    if I: "getInputs c = Inr inp" and r: "repo = repository inp" and v: "version = odinVersion inp"
      and G: "list_ex (is_git ''clone'') (run c w s)"
  proof (cases "cacheCheck c inp")
    case True
    let ?a = "restoreCache c w inp (odinPath c)"
    from I True obtain ending where
      S: "set (run c w s) = set (AddPath (odinPath c) # effects ?a @ effects ?b @ ending)"
      and L: "\<And>P. length (filter P (run c w s))
            = length (filter P (AddPath (odinPath c) # effects ?a @ effects ?b @ ending))"
      and E: "outcome ?a = Inr True \<and> outcome ?b = Inr () \<and> ending = []
              \<or> outcome ?a = Inr False \<and> outcome ?b = Inr ()
                \<and> ending = catch (build w inp (odinPath c))
              \<or> (\<exists>m. (outcome ?a = Inl m \<or> outcome ?b = Inl m) \<and> ending = [SetFailed m])"
      by (rule run_cached_calls [where w = w and s = s]) (rule that)
    have N: "filter (is_git ''clone'') ending = []"
      using E by (auto simp add: filter_catch_build)
    have C: "length (filter (is_git ''clone'') (run c w s))
               = length (filter (is_git ''clone'') (effects ?a))"
      using L [of "is_git ''clone''"] N by (simp add: filter_deps)
    then have G': "list_ex (is_git ''clone'') (effects ?a)"
      using G by (simp add: list_ex_filter)
    have A: "outcome ?a = Inl ?m" and A1: "length (filter (is_git ''clone'') (effects ?a)) = 1"
      using clone_fails_restoreCache [OF G'] O r v by simp_all
    from E A obtain m where ending: "ending = [SetFailed m]" by auto
    have "length (filter is_failure (run c w s)) = 1" "length (filter is_build (run c w s)) = 0"
      using L [of is_failure] L [of is_build] ending
      by (simp_all add: filter_deps filter_restoreCache)
    then show ?thesis using C A1 by (simp add: list_ex_filter)
  next
    case False
    let ?a = "pullOdin c w (repository inp) (odinVersion inp)"
    from I False obtain ending where
      S: "set (run c w s) = set (AddPath (odinPath c) # effects ?a @ effects ?b @ ending)"
      and L: "\<And>P. length (filter P (run c w s))
            = length (filter P (AddPath (odinPath c) # effects ?a @ effects ?b @ ending))"
      and E: "outcome ?a = Inr () \<and> outcome ?b = Inr ()
                \<and> ending = catch (build w inp (odinPath c))
              \<or> (\<exists>m. (outcome ?a = Inl m \<or> outcome ?b = Inl m) \<and> ending = [SetFailed m])"
      by (rule run_uncached_calls [where w = w and s = s]) (rule that)
    from E O r v obtain m where ending: "ending = [SetFailed m]" by auto
    have "length (filter is_failure (run c w s)) = 1" "length (filter is_build (run c w s)) = 0"
      "length (filter (is_git ''clone'') (run c w s)) = 1"
      using L [of is_failure] L [of is_build] L [of "is_git ''clone''"] ending
      by (simp_all add: filter_deps effects_pullOdin)
    then show ?thesis by (simp add: list_ex_filter)
  qed
  then show ?thesis
    using O by (simp add: effects_pullOdin)
qed

lemmas toolkit_eval = toolkit_world_def tool_path_def exec_answer_def exec_rejection_def

lemma str_includes_suffix: "str_includes (a @ b) b"
  unfolding str_includes_iff by (metis append_Nil2)

lemma str_includes_exec_rejection: "str_includes (exec_rejection toolPath code) (show_int code)"
proof -
  have "exec_rejection toolPath code
      = (''The process '' @ [CHR 0x27] @ toolPath @ [CHR 0x27] @ '' failed with exit code '')
        @ show_int code"
    by (simp add: exec_rejection_def)
  then show ?thesis by (simp only: str_includes_suffix)
qed

text \<open>The definitions that evaluating a concrete run unfolds.\<close>

lemmas run_eval =
  run_def catch_def build_def restoreCache_def pullUpdates_def pullOdin_def
  pullOdinBuildDependencies_def check_code_def exec_exec_def exec_getExecOutput_def
  cache_restoreCache_def of_answer_def show_code_def show_int_def show_nat.simps digit_def
  example_common_def example_world_def example_inputs_def Let_def

section \<open>The claims\<close>

subsection \<open>The staleness oracle\<close>

text \<open>
  C6. \<open>pullUpdates\<close> returns \<open>true\<close> if and only if \<open>git pull\<close> has run, its output has
  been captured, and the captured standard output contains the literal text
  \<open>Already up to date.\<close> somewhere; it returns \<open>false\<close> when the output was captured
  without that text, and it returns nothing, rejecting with the error of the pull, when
  the output could not be captured. The exit code and the standard error play no part,
  and \<open>git pull\<close> is the only call \<open>pullUpdates\<close> makes: there is no comparison of
  timestamps or commit hashes.
\<close>

theorem pullUpdates_oracle:
  "outcome (pullUpdates w path version)
     = (case on_getExecOutput w ''git'' [''pull'', ''origin'', version] (Some path) of
          Inl m \<Rightarrow> Inl m
        | Inr output \<Rightarrow> Inr (\<exists>p q. stdout output = p @ ''Already up to date.'' @ q))
   \<and> (outcome (pullUpdates w path version) = Inr True
        \<longleftrightarrow> (\<exists>output p q.
               on_getExecOutput w ''git'' [''pull'', ''origin'', version] (Some path) = Inr output
               \<and> stdout output = p @ ''Already up to date.'' @ q))
   \<and> effects (pullUpdates w path version)
        = [GetExecOutput ''git'' [''pull'', ''origin'', version] (Some path)]"
  by (cases "on_getExecOutput w ''git'' [''pull'', ''origin'', version] (Some path)")
    (simp_all add: outcome_pullUpdates effects_pullUpdates str_includes_iff)

theorem pullUpdates_oracle_witness:
  "outcome (pullUpdates (example_world ''linux'' None ''From github: Already up to date.'' 0 0 0)
        ''/opt/odin'' ''master'') = Inr True
   \<and> outcome (pullUpdates (example_world ''linux'' None ''Updating 1a2b..3c4d'' 0 0 0)
        ''/opt/odin'' ''master'') = Inr False
   \<and> outcome (pullUpdates
        ((example_world ''linux'' None ''Already up to date.'' 0 0 0)
           \<lparr>on_getExecOutput := \<lambda>cmd args cwd. Inl ''could not read from remote repository''\<rparr>)
        ''/opt/odin'' ''master'') = Inl ''could not read from remote repository''"
proof -
  let ?w = "example_world ''linux'' None ''From github: Already up to date.'' 0 0 0"
  let ?v = "example_world ''linux'' None ''Updating 1a2b..3c4d'' 0 0 0"
  let ?u = "(example_world ''linux'' None ''Already up to date.'' 0 0 0)
           \<lparr>on_getExecOutput := \<lambda>cmd args cwd. Inl ''could not read from remote repository''\<rparr>"
  have h: "on_getExecOutput ?w ''git'' [''pull'', ''origin'', ''master''] (Some ''/opt/odin'')
     = Inr \<lparr>exitCode = 0, stdout = ''From github: Already up to date.'', stderr = []\<rparr>"
    by (simp add: example_world_def)
  have k: "on_getExecOutput ?v ''git'' [''pull'', ''origin'', ''master''] (Some ''/opt/odin'')
     = Inr \<lparr>exitCode = 0, stdout = ''Updating 1a2b..3c4d'', stderr = []\<rparr>"
    by (simp add: example_world_def)
  have j: "on_getExecOutput ?u ''git'' [''pull'', ''origin'', ''master''] (Some ''/opt/odin'')
     = Inl ''could not read from remote repository''"
    by simp
  have t: "str_includes ''From github: Already up to date.'' ''Already up to date.''"
    by simp
  have f: "\<not> str_includes ''Updating 1a2b..3c4d'' ''Already up to date.''"
    by simp
  have 1: "outcome (pullUpdates ?w ''/opt/odin'' ''master'') = Inr True"
    using pullUpdates_oracle [of ?w "''/opt/odin''" "''master''"] t
    by (simp only: h sum.case) (simp add: str_includes_iff)
  have 2: "outcome (pullUpdates ?v ''/opt/odin'' ''master'') = Inr False"
    using pullUpdates_oracle [of ?v "''/opt/odin''" "''master''"] f
    by (simp only: k sum.case) (simp add: str_includes_iff)
  have 3: "outcome (pullUpdates ?u ''/opt/odin'' ''master'')
             = Inl ''could not read from remote repository''"
    using pullUpdates_oracle [of ?u "''/opt/odin''" "''master''"]
    by (simp only: j sum.case)
  show ?thesis using 1 2 3 by simp
qed

subsection \<open>Unsupported platforms\<close>

text \<open>
  C8. On a host whose \<open>os.platform()\<close> is none of \<open>darwin\<close>, \<open>linux\<close>, \<open>win32\<close>,
  \<open>pullOdinBuildDependencies\<close> throws the unsupported-platform error at once: it makes
  no call at all before throwing. Every run on such a host reports a failure and never
  calls the build command; when the inputs were read, the failure reported is the
  unsupported-platform error, it is the only one, and it is reported right after the
  first call of the concurrent clone or cache restoration, before any outside operation
  has finished.
\<close>

theorem unsupported_platform:
  assumes "os_platform w \<noteq> ''darwin''" and "os_platform w \<noteq> ''linux''"
    and "os_platform w \<noteq> ''win32''"
  shows "pullOdinBuildDependencies w llvm
           = Throw (''Operating system '' @ os_platform w @ '' is not supported by setup-odin'')
         \<and> effects (pullOdinBuildDependencies w llvm) = []
         \<and> list_ex is_failure (run c w s)
         \<and> \<not> list_ex is_build (run c w s)
         \<and> (getInputs c = Inr inp \<longrightarrow>
              run c w s ! 2
                = SetFailed (''Operating system '' @ os_platform w @ '' is not supported by setup-odin'')
              \<and> filter is_failure (run c w s)
                = [SetFailed (''Operating system '' @ os_platform w @ '' is not supported by setup-odin'')])"
proof -
  let ?m = "''Operating system '' @ os_platform w @ '' is not supported by setup-odin''"
  have T: "\<And>v. pullOdinBuildDependencies w v = Throw ?m"
    using assms by (simp add: pullOdinBuildDependencies_def)
  have F: "list_ex is_failure (run c w s)"
    by (simp add: run_def T restoreCache_def pullOdin_def cache_restoreCache_def exec_exec_def
        Let_def split: sum.splits)
  have B: "\<not> list_ex is_build (run c w s)"
  proof (cases "getInputs c")
    case (Inl m)
    then show ?thesis by (simp add: run_def)
  next
    case (Inr i)
    then show ?thesis using no_build_unless_deps [of c i w s] by (simp add: T)
  qed
  have R: "run c w s ! 2 = SetFailed ?m \<and> filter is_failure (run c w s) = [SetFailed ?m]"
    if I: "getInputs c = Inr inp"
  proof (cases "cacheCheck c inp")
    case True
    have "\<forall>e \<in> set (effects (restoreCache c w inp (odinPath c))). \<not> is_failure e"
      using events_restoreCache by blast
    then have "filter is_failure (effects (restoreCache c w inp (odinPath c))) = []"
      by (simp add: filter_empty_conv)
    then show ?thesis
      using I True
      by (simp add: run_def T restoreCache_def cache_restoreCache_def Let_def)
  next
    case False
    then show ?thesis
      using I
      by (simp add: run_def T pullOdin_def exec_exec_def effects_bind effects_of_answer
          split: sum.splits)
  qed
  show ?thesis using T F B R by simp
qed

theorem unsupported_platform_witness:
  "os_platform (example_world ''freebsd'' None [] 0 0 0) \<noteq> ''darwin''
   \<and> os_platform (example_world ''freebsd'' None [] 0 0 0) \<noteq> ''linux''
   \<and> os_platform (example_world ''freebsd'' None [] 0 0 0) \<noteq> ''win32''
   \<and> pullOdinBuildDependencies (example_world ''freebsd'' None [] 0 0 0) ''14''
       = Throw ''Operating system freebsd is not supported by setup-odin''
   \<and> \<not> list_ex is_build (run (example_common True) (example_world ''freebsd'' None [] 0 0 0) [True])
   \<and> filter is_failure (run (example_common True) (example_world ''freebsd'' None [] 0 0 0) [True])
       = [SetFailed ''Operating system freebsd is not supported by setup-odin'']"
proof -
  let ?w = "example_world ''freebsd'' None [] 0 0 0"
  have p: "os_platform ?w = ''freebsd''" by (simp add: example_world_def)
  have h1: "os_platform ?w \<noteq> ''darwin''" and h2: "os_platform ?w \<noteq> ''linux''"
    and h3: "os_platform ?w \<noteq> ''win32''"
    by (simp_all add: p)
  have i: "getInputs (example_common True) = Inr example_inputs"
    by (simp add: example_common_def)
  show ?thesis
    using h1 h2 h3 i
      unsupported_platform [OF h1 h2 h3, of "''14''" "example_common True" "[True]" example_inputs]
    by (simp add: p)
qed

subsection \<open>Build failures\<close>

text \<open>
  C9. In every run that calls the external build command, if that command exits with a
  code \<open>n\<close> other than 0, the run ends with a failure report whose message contains
  \<open>n\<close>, made right after the build command, however \<open>exec.exec\<close> delivers the code.
  When \<open>exec.exec\<close> rejects, as the toolkit does for such a code, the report is the
  message of the rejection, which names the tool and \<open>n\<close>; were it to resolve with
  \<open>n\<close>, the report would be \<open>Building Odin failed with exit code: n\<close> of line 56. A
  build command that exits with 0 ends the run with the success message instead.
\<close>

theorem build_failure_propagates:
  assumes "Exec cmd args cwd \<in> set (run c w s)"
    and "is_build (Exec cmd args cwd)"
  shows "(on_exec w cmd args cwd = Inr n \<and> n \<noteq> 0 \<longrightarrow>
            (\<exists>pre. run c w s
               = pre @ [Exec cmd args cwd,
                        SetFailed (''Building Odin failed with exit code: '' @ show_int n)]))
         \<and> (on_exec w cmd args cwd = Inl m \<longrightarrow>
            (\<exists>pre. run c w s = pre @ [Exec cmd args cwd, SetFailed m]))
         \<and> (on_exec w cmd args cwd = exec_answer toolPath n \<and> n \<noteq> 0 \<longrightarrow>
            (\<exists>pre. run c w s = pre @ [Exec cmd args cwd, SetFailed (exec_rejection toolPath n)])
            \<and> str_includes (exec_rejection toolPath n) (show_int n))
         \<and> (on_exec w cmd args cwd = Inr 0 \<longrightarrow>
            (\<exists>pre. run c w s
               = pre @ [Exec cmd args cwd, Info ''Successfully set up Odin compiler'']))"
proof -
  from assms obtain inp early where
    R: "run c w s = AddPath (odinPath c) # early @ catch (build w inp (odinPath c))"
    and E: "Exec cmd args cwd \<in> set (effects (build w inp (odinPath c)))"
    by (rule build_in_run)
  let ?pre = "AddPath (odinPath c) # early
                @ [SetOutput ''cache-hit'' False, SaveState ''cache-hit'' ''false'']"
  have C: "catch (build w inp (odinPath c))
          = [SetOutput ''cache-hit'' False, SaveState ''cache-hit'' ''false'', Exec cmd args cwd]
            @ (case on_exec w cmd args cwd of
                 Inl m \<Rightarrow> [SetFailed m]
               | Inr n \<Rightarrow>
                   if n \<noteq> 0
                   then [SetFailed (''Building Odin failed with exit code: '' @ show_int n)]
                   else [Info ''Successfully set up Odin compiler''])"
    using E
    by (auto simp add: catch_def effects_build outcome_build split: if_splits sum.splits)
  have 1: "run c w s = ?pre @ [Exec cmd args cwd,
             SetFailed (''Building Odin failed with exit code: '' @ show_int n)]"
    if "on_exec w cmd args cwd = Inr n" "n \<noteq> 0"
    using R C that by simp
  have 2: "run c w s = ?pre @ [Exec cmd args cwd, SetFailed m']"
    if "on_exec w cmd args cwd = Inl m'" for m'
    using R C that by simp
  have 3: "run c w s = ?pre @ [Exec cmd args cwd, SetFailed (exec_rejection toolPath n)]"
    if "on_exec w cmd args cwd = exec_answer toolPath n" "n \<noteq> 0"
    using 2 [of "exec_rejection toolPath n"] that by (simp add: exec_answer_def)
  have 4: "run c w s = ?pre @ [Exec cmd args cwd, Info ''Successfully set up Odin compiler'']"
    if "on_exec w cmd args cwd = Inr 0"
    using R C that by simp
  show ?thesis
    using 1 2 [of m] 3 4 str_includes_exec_rejection [of toolPath n] by blast
qed

theorem build_failure_propagates_witness:
  "Exec ''./build_odin.sh'' [''debug''] (Some ''/opt/odin'')
     \<in> set (run (example_common False) (toolkit_world ''linux'' None [] 0 0 2) [False])
   \<and> is_build (Exec ''./build_odin.sh'' [''debug''] (Some ''/opt/odin''))
   \<and> on_exec (toolkit_world ''linux'' None [] 0 0 2) ''./build_odin.sh'' [''debug'']
        (Some ''/opt/odin'') = exec_answer ''/opt/odin/build_odin.sh'' 2
   \<and> (\<exists>pre. run (example_common False) (toolkit_world ''linux'' None [] 0 0 2) [False]
         = pre @ [Exec ''./build_odin.sh'' [''debug''] (Some ''/opt/odin''),
                  SetFailed (exec_rejection ''/opt/odin/build_odin.sh'' 2)])
   \<and> str_includes (exec_rejection ''/opt/odin/build_odin.sh'' 2) ''2''
   \<and> Exec ''./build_odin.sh'' [''debug''] (Some ''/opt/odin'')
     \<in> set (run (example_common False) (example_world ''linux'' None [] 0 0 2) [])
   \<and> on_exec (example_world ''linux'' None [] 0 0 2) ''./build_odin.sh'' [''debug'']
        (Some ''/opt/odin'') = Inr 2
   \<and> (\<exists>pre. run (example_common False) (example_world ''linux'' None [] 0 0 2) []
         = pre @ [Exec ''./build_odin.sh'' [''debug''] (Some ''/opt/odin''),
                  SetFailed ''Building Odin failed with exit code: 2''])"
proof -
  let ?c = "example_common False"
  let ?w = "toolkit_world ''linux'' None [] 0 0 2" and ?v = "example_world ''linux'' None [] 0 0 2"
  let ?e = "Exec ''./build_odin.sh'' [''debug''] (Some ''/opt/odin'')"
  have h1: "?e \<in> set (run ?c ?w [False])" by (simp add: run_eval toolkit_eval)
  have k1: "?e \<in> set (run ?c ?v [])" by (simp add: run_eval)
  have h2: "is_build ?e" by simp
  have h3: "on_exec ?w ''./build_odin.sh'' [''debug''] (Some ''/opt/odin'')
              = exec_answer ''/opt/odin/build_odin.sh'' 2"
    by (simp add: toolkit_world_def tool_path_def)
  have k3: "on_exec ?v ''./build_odin.sh'' [''debug''] (Some ''/opt/odin'') = Inr 2"
    by (simp add: example_world_def)
  have h4: "(2::int) \<noteq> 0" by simp
  have s: "show_int 2 = ''2''" by (simp add: show_int_def show_nat.simps digit_def)
  have a: "\<exists>pre. run ?c ?w [False] = pre @ [?e, SetFailed (exec_rejection ''/opt/odin/build_odin.sh'' 2)]"
    and b: "str_includes (exec_rejection ''/opt/odin/build_odin.sh'' 2) (show_int 2)"
    using build_failure_propagates [OF h1 h2, of 2 undefined "''/opt/odin/build_odin.sh''"] h3 h4
    by blast+
  have d: "\<exists>pre. run ?c ?v [] = pre @ [?e, SetFailed (''Building Odin failed with exit code: '' @ show_int 2)]"
    using build_failure_propagates [OF k1 h2, of 2 undefined undefined] k3 h4 by blast
  show ?thesis
    using h1 h2 h3 k1 k3 a b d unfolding s by simp
qed

subsection \<open>Clone failures\<close>

text \<open>
  C7. A \<open>git clone\<close> of \<open>pullOdin\<close> that exits with a code other than 0 is meant to
  fail the run with a message that names the exit code and suggests that the version may
  not exist: that is the throw of line 113. It does not. On a \<open>linux\<close> runner with
  caching disabled, where \<open>git clone\<close> exits with 128, \<open>exec.exec\<close> is called without
  \<open>ignoreReturnCode\<close> and rejects, so \<open>pullOdin\<close> rejects with the message of the
  toolkit and never reaches line 113. The failure that the run reports names the tool
  and the exit code, and does not contain the suggestion.
\<close>

theorem pullOdin_failure_hint_lost:
  "on_exec (toolkit_world ''linux'' None [] 128 0 0) ''git''
       [''clone'', ''https://github.com/odin-lang/Odin'', ''/opt/odin'', ''--branch'', ''master'',
        ''--depth=1'', ''--single-branch'', ''--no-tags''] None
     = exec_answer ''/usr/bin/git'' 128
   \<and> outcome (pullOdin (example_common False) (toolkit_world ''linux'' None [] 128 0 0)
        ''https://github.com/odin-lang/Odin'' ''master'')
       = Inl (exec_rejection ''/usr/bin/git'' 128)
   \<and> exec_rejection ''/usr/bin/git'' 128
       = ''The process '' @ [CHR 0x27] @ ''/usr/bin/git'' @ [CHR 0x27]
         @ '' failed with exit code 128''
   \<and> \<not> str_includes (exec_rejection ''/usr/bin/git'' 128) ''are you sure that version exists?''
   \<and> run (example_common False) (toolkit_world ''linux'' None [] 128 0 0) [False]
       = [AddPath ''/opt/odin'',
          Exec ''git'' [''clone'', ''https://github.com/odin-lang/Odin'', ''/opt/odin'',
                        ''--branch'', ''master'', ''--depth=1'', ''--single-branch'',
                        ''--no-tags''] None,
          Which ''llvm-14'',
          Info ''LLVM 14 comes pre-installed on this runner'',
          SetFailed (exec_rejection ''/usr/bin/git'' 128)]"
proof -
  have m: "exec_rejection ''/usr/bin/git'' 128
       = ''The process '' @ [CHR 0x27] @ ''/usr/bin/git'' @ [CHR 0x27]
         @ '' failed with exit code 128''"
    by (simp add: exec_rejection_def show_int_def show_nat.simps digit_def)
  have n: "\<not> str_includes (exec_rejection ''/usr/bin/git'' 128)
              ''are you sure that version exists?''"
    unfolding m by simp
  have a: "on_exec (toolkit_world ''linux'' None [] 128 0 0) ''git''
       [''clone'', ''https://github.com/odin-lang/Odin'', ''/opt/odin'', ''--branch'', ''master'',
        ''--depth=1'', ''--single-branch'', ''--no-tags''] None
     = exec_answer ''/usr/bin/git'' 128"
    by (simp add: toolkit_world_def tool_path_def)
  have o: "outcome (pullOdin (example_common False) (toolkit_world ''linux'' None [] 128 0 0)
        ''https://github.com/odin-lang/Odin'' ''master'')
       = Inl (exec_rejection ''/usr/bin/git'' 128)"
    by (simp add: outcome_pullOdin example_common_def toolkit_world_def tool_path_def
        exec_answer_def)
  have r: "run (example_common False) (toolkit_world ''linux'' None [] 128 0 0) [False]
       = [AddPath ''/opt/odin'',
          Exec ''git'' [''clone'', ''https://github.com/odin-lang/Odin'', ''/opt/odin'',
                        ''--branch'', ''master'', ''--depth=1'', ''--single-branch'',
                        ''--no-tags''] None,
          Which ''llvm-14'',
          Info ''LLVM 14 comes pre-installed on this runner'',
          SetFailed (exec_rejection ''/usr/bin/git'' 128)]"
    by (simp add: run_eval toolkit_world_def tool_path_def exec_answer_def)
  show ?thesis using a o m n r by blast
qed

subsection \<open>Confirmed cache hits\<close>




subsection \<open>A failed dependency installation beside a confirmed hit\<close>

text \<open>
  C2, as the code has it. In every run with caching enabled in which the cache
  restoration confirms a hit and the dependency installation running beside it fails,
  the run reports exactly one failure, with the message of the dependency installation:
  the failure is not discarded. The build command is never called, and the \<open>cache-hit\<close>
  output is still set to \<open>true\<close>.
\<close>

theorem dependency_failure_on_hit:
  assumes "getInputs c = Inr inp" and "cacheCheck c inp"
    and "outcome (restoreCache c w inp (odinPath c)) = Inr True"
    and "outcome (pullOdinBuildDependencies w (llvmVersion inp)) = Inl m"
  shows "filter is_failure (run c w s) = [SetFailed m]
         \<and> \<not> list_ex is_build (run c w s)
         \<and> SetOutput ''cache-hit'' True \<in> set (run c w s)"
  using assms(1,2)
proof (cases rule: run_cached_cases [where w = w and s = s])
  case (rejected early m' late)
  let ?a = "restoreCache c w inp (odinPath c)"
  let ?b = "pullOdinBuildDependencies w (llvmVersion inp)"
  from rejected(2) assms(3,4) have m: "m' = m" by simp
  from rejected(3) have S: "set (early @ late) = set (effects ?a) \<union> set (effects ?b)"
    by (rule set_of_mset_sum)
  have "\<forall>e \<in> set (early @ late). \<not> is_failure e \<and> \<not> is_build e"
    unfolding S using events_restoreCache no_build_pullOdinBuildDependencies by blast
  then have N: "filter is_failure early = []" "filter is_failure late = []"
    "filter is_build early = []" "filter is_build late = []"
    by (simp_all add: filter_empty_conv)
  have "SetOutput ''cache-hit'' True \<in> set (effects ?a)"
    using assms(3) by (simp add: restoreCache_reports)
  then have "SetOutput ''cache-hit'' True \<in> set (early @ late)"
    unfolding S by simp
  then show ?thesis
    using rejected(1) m N by (simp add: list_ex_filter)
next
  case (hit early)
  then show ?thesis using assms(4) by simp
next
  case (rebuild early)
  then show ?thesis using assms(4) by simp
qed

theorem dependency_failure_on_hit_witness:
  "getInputs (example_common True) = Inr example_inputs
   \<and> cacheCheck (example_common True) example_inputs
   \<and> outcome (restoreCache (example_common True)
        (example_world ''linux'' (Some ''odin-master-debug'') ''Already up to date.'' 0 2 0)
        example_inputs (odinPath (example_common True))) = Inr True
   \<and> outcome (pullOdinBuildDependencies
        (example_world ''linux'' (Some ''odin-master-debug'') ''Already up to date.'' 0 2 0)
        (llvmVersion example_inputs))
       = Inl ''Installing Odin dependencies failed with exit code: 2''
   \<and> filter is_failure (run (example_common True)
        (example_world ''linux'' (Some ''odin-master-debug'') ''Already up to date.'' 0 2 0) [False, True])
       = [SetFailed ''Installing Odin dependencies failed with exit code: 2'']
   \<and> \<not> list_ex is_build (run (example_common True)
        (example_world ''linux'' (Some ''odin-master-debug'') ''Already up to date.'' 0 2 0) [False, True])"
proof -
  let ?c = "example_common True"
  let ?w = "example_world ''linux'' (Some ''odin-master-debug'') ''Already up to date.'' 0 2 0"
  have h1: "getInputs ?c = Inr example_inputs" and h2: "cacheCheck ?c example_inputs"
    by (simp_all add: example_common_def)
  have h3: "outcome (restoreCache ?c ?w example_inputs (odinPath ?c)) = Inr True"
    by (simp add: run_eval)
  have h4: "outcome (pullOdinBuildDependencies ?w (llvmVersion example_inputs))
              = Inl ''Installing Odin dependencies failed with exit code: 2''"
    by (simp add: run_eval)
  show ?thesis
    using h1 h2 h3 h4 dependency_failure_on_hit [OF h1 h2 h3 h4, of "[False, True]"] by simp
qed

text \<open>
  The run that the claim calls successful: on \<open>darwin\<close>, the cache restoration is
  resumed first and confirms its hit, then \<open>brew\<close> exits with 1, and the last call of
  the run is the failure report.
\<close>

theorem dependency_failure_on_hit_counterexample:
  "cacheCheck (example_common True) example_inputs
   \<and> outcome (restoreCache (example_common True)
        (example_world ''darwin'' (Some ''odin-master-debug'') ''Already up to date.'' 0 1 0)
        example_inputs ''/opt/odin'') = Inr True
   \<and> outcome (pullOdinBuildDependencies
        (example_world ''darwin'' (Some ''odin-master-debug'') ''Already up to date.'' 0 1 0) ''14'')
       = Inl ''Installing Odin dependencies failed with exit code: 1''
   \<and> run (example_common True)
        (example_world ''darwin'' (Some ''odin-master-debug'') ''Already up to date.'' 0 1 0)
        [True, True]
       = [AddPath ''/opt/odin'',
          RestoreCache [''/opt/odin''] ''odin-master-debug'',
          AddPath ''/usr/local/opt/llvm@14/bin'',
          Exec ''brew'' [''install'', ''llvm@14''] None,
          Info ''Cache HIT, checking if it is still up-to-date'',
          GetExecOutput ''git'' [''pull'', ''origin'', ''master''] (Some ''/opt/odin''),
          Info ''Cache is still up-to-date'',
          SetOutput ''cache-hit'' True,
          SaveState ''cache-hit'' ''true'',
          Info ''Successfully set up Odin compiler'',
          SetFailed ''Installing Odin dependencies failed with exit code: 1'']
   \<and> list_ex is_failure (run (example_common True)
        (example_world ''darwin'' (Some ''odin-master-debug'') ''Already up to date.'' 0 1 0)
        [True, True])"
  by (simp add: run_eval)

subsection \<open>When the \<open>cache-hit\<close> output and state are emitted\<close>

text \<open>
  C10, as the code has it. In every run that has read its inputs, the \<open>cache-hit\<close> output
  is set to \<open>true\<close>, and the state saved as \<open>true\<close>, exactly when caching is enabled and
  \<open>restoreCache\<close> confirms a hit; the output is set to \<open>false\<close>, and the state saved as
  \<open>false\<close>, exactly when both concurrent functions succeed without a confirmed hit. So a
  run in which the clone or the cache restoration with its pull fails emits neither, and
  a run in which the dependency installation fails never emits \<open>false\<close>, but emits
  \<open>true\<close> when the restoration beside it confirms a hit.
\<close>

theorem cache_hit_reports:
  assumes "getInputs c = Inr inp"
  shows "(SetOutput ''cache-hit'' True \<in> set (run c w s)
            \<longleftrightarrow> cacheCheck c inp \<and> outcome (restoreCache c w inp (odinPath c)) = Inr True)
         \<and> (SaveState ''cache-hit'' ''true'' \<in> set (run c w s)
            \<longleftrightarrow> cacheCheck c inp \<and> outcome (restoreCache c w inp (odinPath c)) = Inr True)
         \<and> (SetOutput ''cache-hit'' False \<in> set (run c w s)
            \<longleftrightarrow> outcome (pullOdinBuildDependencies w (llvmVersion inp)) = Inr ()
                \<and> (if cacheCheck c inp
                    then outcome (restoreCache c w inp (odinPath c)) = Inr False
                    else outcome (pullOdin c w (repository inp) (odinVersion inp)) = Inr ()))
         \<and> (SaveState ''cache-hit'' ''false'' \<in> set (run c w s)
            \<longleftrightarrow> outcome (pullOdinBuildDependencies w (llvmVersion inp)) = Inr ()
                \<and> (if cacheCheck c inp
                    then outcome (restoreCache c w inp (odinPath c)) = Inr False
                    else outcome (pullOdin c w (repository inp) (odinVersion inp)) = Inr ()))
         \<and> ((if cacheCheck c inp
              then isl (outcome (restoreCache c w inp (odinPath c)))
              else isl (outcome (pullOdin c w (repository inp) (odinVersion inp))))
            \<longrightarrow> \<not> list_ex reports_cache_hit (run c w s))"
proof -
  note M = cache_hit_reports_iff [OF assms, of w s]
  have "\<not> list_ex reports_cache_hit (run c w s)"
    if F: "if cacheCheck c inp
           then isl (outcome (restoreCache c w inp (odinPath c)))
           else isl (outcome (pullOdin c w (repository inp) (odinVersion inp)))"
  proof
    assume "list_ex reports_cache_hit (run c w s)"
    then obtain e where e: "e \<in> set (run c w s)" "reports_cache_hit e"
      by (auto simp add: list_ex_iff)
    with M have "e = SetOutput ''cache-hit'' True \<or> e = SaveState ''cache-hit'' ''true''
               \<or> e = SetOutput ''cache-hit'' False \<or> e = SaveState ''cache-hit'' ''false''"
      by blast
    with e(1) M have
      "cacheCheck c inp \<and> outcome (restoreCache c w inp (odinPath c)) = Inr True
       \<or> (if cacheCheck c inp
           then outcome (restoreCache c w inp (odinPath c)) = Inr False
           else outcome (pullOdin c w (repository inp) (odinVersion inp)) = Inr ())"
      by blast
    with F show False by (auto split: if_splits)
  qed
  with M show ?thesis by blast
qed

theorem cache_hit_reports_witness:
  "getInputs (example_common False) = Inr example_inputs
   \<and> isl (outcome (pullOdin (example_common False) (example_world ''win32'' None [] 1 0 0)
        (repository example_inputs) (odinVersion example_inputs)))
   \<and> \<not> list_ex reports_cache_hit
        (run (example_common False) (example_world ''win32'' None [] 1 0 0) [True])
   \<and> SetOutput ''cache-hit'' False
        \<notin> set (run (example_common False) (example_world ''win32'' None [] 1 0 0) [True])"
proof -
  let ?c = "example_common False" and ?w = "example_world ''win32'' None [] 1 0 0"
  have h1: "getInputs ?c = Inr example_inputs" and h2: "\<not> cacheCheck ?c example_inputs"
    by (simp_all add: example_common_def)
  have h3: "isl (outcome (pullOdin ?c ?w (repository example_inputs) (odinVersion example_inputs)))"
    by (simp add: outcome_pullOdin example_world_def)
  show ?thesis
    using h1 h2 h3 cache_hit_reports [OF h1, of ?w "[True]"]
    by (auto simp add: list_ex_iff)
qed

text \<open>
  A run that fails before any cache decision and emits both all the same: on \<open>freebsd\<close>
  the dependency installation throws at once and the failure is reported; the cache
  restoration is not cancelled, confirms its hit, and sets the output and the state.
\<close>

theorem cache_hit_reports_counterexample:
  "getInputs (example_common True) = Inr example_inputs
   \<and> outcome (pullOdinBuildDependencies
        (example_world ''freebsd'' (Some ''odin-master-debug'') ''Already up to date.'' 0 0 0) ''14'')
       = Inl ''Operating system freebsd is not supported by setup-odin''
   \<and> run (example_common True)
        (example_world ''freebsd'' (Some ''odin-master-debug'') ''Already up to date.'' 0 0 0) []
       = [AddPath ''/opt/odin'',
          RestoreCache [''/opt/odin''] ''odin-master-debug'',
          SetFailed ''Operating system freebsd is not supported by setup-odin'',
          Info ''Cache HIT, checking if it is still up-to-date'',
          GetExecOutput ''git'' [''pull'', ''origin'', ''master''] (Some ''/opt/odin''),
          Info ''Cache is still up-to-date'',
          SetOutput ''cache-hit'' True,
          SaveState ''cache-hit'' ''true'',
          Info ''Successfully set up Odin compiler'']
   \<and> list_ex is_failure (run (example_common True)
        (example_world ''freebsd'' (Some ''odin-master-debug'') ''Already up to date.'' 0 0 0) [])
   \<and> SetOutput ''cache-hit'' True \<in> set (run (example_common True)
        (example_world ''freebsd'' (Some ''odin-master-debug'') ''Already up to date.'' 0 0 0) [])
   \<and> SaveState ''cache-hit'' ''true'' \<in> set (run (example_common True)
        (example_world ''freebsd'' (Some ''odin-master-debug'') ''Already up to date.'' 0 0 0) [])"
  by (simp add: run_eval)

subsection \<open>Stale hits\<close>

text \<open>
  C3, as the code has it. In every run with caching enabled in which the cache store
  restores the requested key, \<open>pullUpdates\<close> reports that changes were pulled, and the
  dependency installation succeeds, the \<open>cache-hit\<close> output is set to \<open>false\<close> and never
  to \<open>true\<close>, the build command is called exactly once, in the checkout directory and
  after the \<open>git pull\<close> in that directory, and nothing is cloned.
\<close>

theorem stale_hit_rebuild:
  assumes "getInputs c = Inr inp" and "cacheCheck c inp"
    and "on_restoreCache w (cachePaths c) (composeCacheKey c inp)
           = Inr (Some (composeCacheKey c inp))"
    and "outcome (pullUpdates w (odinPath c) (odinVersion inp)) = Inr False"
    and "outcome (pullOdinBuildDependencies w (llvmVersion inp)) = Inr ()"
  shows "SetOutput ''cache-hit'' False \<in> set (run c w s)
         \<and> SetOutput ''cache-hit'' True \<notin> set (run c w s)
         \<and> length (filter is_build (run c w s)) = 1
         \<and> \<not> list_ex (is_git ''clone'') (run c w s)
         \<and> (\<exists>pre cmd post.
               run c w s = pre @ Exec cmd [buildType inp] (Some (odinPath c)) # post
               \<and> is_build (Exec cmd [buildType inp] (Some (odinPath c)))
               \<and> GetExecOutput ''git'' [''pull'', ''origin'', odinVersion inp] (Some (odinPath c))
                    \<in> set pre)"
proof -
  let ?a = "restoreCache c w inp (odinPath c)"
  let ?b = "pullOdinBuildDependencies w (llvmVersion inp)"
  note A = restoreCache_candidate [OF assms(3,4)]
  from assms(1,2) show ?thesis
  proof (cases rule: run_cached_cases [where w = w and s = s])
    case (rejected early m late)
    then show ?thesis using A(1) assms(5) by simp
  next
    case (hit early)
    then show ?thesis using A(1) by simp
  next
    case (rebuild early)
    from rebuild(4) have S: "set early = set (effects ?a) \<union> set (effects ?b)"
      by (rule set_of_mset_sum)
    have L: "\<And>P. length (filter P early) = length (filter P (effects ?a @ effects ?b))"
      using rebuild(4) by (intro length_filter_mset) simp
    have "length (filter is_build early) = 0"
      unfolding L by (simp add: filter_restoreCache filter_deps)
    then have nb: "filter is_build early = []" by simp
    from rebuild(1) assms(5) nb
    have B: "length (filter is_build (run c w s)) = 1
         \<and> (\<exists>pre cmd post.
               run c w s = pre @ Exec cmd [buildType inp] (Some (odinPath c)) # post
               \<and> is_build (Exec cmd [buildType inp] (Some (odinPath c)))
               \<and> set early \<subseteq> set pre)"
      by (rule rebuild_after)
    have "GetExecOutput ''git'' [''pull'', ''origin'', odinVersion inp] (Some (odinPath c))
            \<in> set early"
      unfolding S using A(2) by simp
    with B have 5: "\<exists>pre cmd post.
               run c w s = pre @ Exec cmd [buildType inp] (Some (odinPath c)) # post
               \<and> is_build (Exec cmd [buildType inp] (Some (odinPath c)))
               \<and> GetExecOutput ''git'' [''pull'', ''origin'', odinVersion inp] (Some (odinPath c))
                    \<in> set pre"
      by blast
    have 1: "SetOutput ''cache-hit'' False \<in> set (run c w s)"
      using rebuild(1) by (simp add: catch_build_reports)
    have "SetOutput ''cache-hit'' True \<notin> set early"
      unfolding S using A(2) by (simp add: deps_reports_nothing)
    then have 2: "SetOutput ''cache-hit'' True \<notin> set (run c w s)"
      using rebuild(1) by (simp add: catch_build_reports)
    have "length (filter (is_git ''clone'') early) = 0"
      unfolding L using A(2) by (simp add: filter_deps)
    then have "length (filter (is_git ''clone'') (run c w s)) = 0"
      using rebuild(1) by (simp add: filter_catch_build)
    then have 4: "\<not> list_ex (is_git ''clone'') (run c w s)"
      by (simp add: list_ex_filter)
    show ?thesis using 1 2 B 4 5 by blast
  qed
qed

theorem stale_hit_rebuild_witness:
  "getInputs (example_common True) = Inr example_inputs
   \<and> cacheCheck (example_common True) example_inputs
   \<and> on_restoreCache (example_world ''win32'' (Some ''odin-master-debug'') ''Updating 1a2b..3c4d'' 0 0 0)
        (cachePaths (example_common True)) (composeCacheKey (example_common True) example_inputs)
       = Inr (Some (composeCacheKey (example_common True) example_inputs))
   \<and> outcome (pullUpdates (example_world ''win32'' (Some ''odin-master-debug'') ''Updating 1a2b..3c4d'' 0 0 0)
        (odinPath (example_common True)) (odinVersion example_inputs)) = Inr False
   \<and> outcome (pullOdinBuildDependencies
        (example_world ''win32'' (Some ''odin-master-debug'') ''Updating 1a2b..3c4d'' 0 0 0)
        (llvmVersion example_inputs)) = Inr ()
   \<and> SetOutput ''cache-hit'' False \<in> set (run (example_common True)
        (example_world ''win32'' (Some ''odin-master-debug'') ''Updating 1a2b..3c4d'' 0 0 0) [])
   \<and> length (filter is_build (run (example_common True)
        (example_world ''win32'' (Some ''odin-master-debug'') ''Updating 1a2b..3c4d'' 0 0 0) [])) = 1
   \<and> \<not> list_ex (is_git ''clone'') (run (example_common True)
        (example_world ''win32'' (Some ''odin-master-debug'') ''Updating 1a2b..3c4d'' 0 0 0) [])"
proof -
  let ?c = "example_common True"
  let ?w = "example_world ''win32'' (Some ''odin-master-debug'') ''Updating 1a2b..3c4d'' 0 0 0"
  have h1: "getInputs ?c = Inr example_inputs" and h2: "cacheCheck ?c example_inputs"
    by (simp_all add: example_common_def)
  have h3: "on_restoreCache ?w (cachePaths ?c) (composeCacheKey ?c example_inputs)
              = Inr (Some (composeCacheKey ?c example_inputs))"
    by (simp add: example_common_def example_world_def example_inputs_def)
  have h4: "outcome (pullUpdates ?w (odinPath ?c) (odinVersion example_inputs)) = Inr False"
    by (simp add: run_eval)
  have h5: "outcome (pullOdinBuildDependencies ?w (llvmVersion example_inputs)) = Inr ()"
    by (simp add: run_eval)
  show ?thesis
    using h1 h2 h3 h4 h5 stale_hit_rebuild [OF h1 h2 h3 h4 h5, of "[]"] by simp
qed

text \<open>
  Without a successful dependency installation there is no build and no \<open>cache-hit\<close>
  output: on \<open>darwin\<close>, a stale hit beside a \<open>brew\<close> that exits with 1.
\<close>

theorem stale_hit_rebuild_counterexample:
  "getInputs (example_common True) = Inr example_inputs
   \<and> cacheCheck (example_common True) example_inputs
   \<and> on_restoreCache (example_world ''darwin'' (Some ''odin-master-debug'') ''Updating 1a2b..3c4d'' 0 1 0)
        (cachePaths (example_common True)) (composeCacheKey (example_common True) example_inputs)
       = Inr (Some (composeCacheKey (example_common True) example_inputs))
   \<and> outcome (pullUpdates (example_world ''darwin'' (Some ''odin-master-debug'') ''Updating 1a2b..3c4d'' 0 1 0)
        (odinPath (example_common True)) (odinVersion example_inputs)) = Inr False
   \<and> run (example_common True)
        (example_world ''darwin'' (Some ''odin-master-debug'') ''Updating 1a2b..3c4d'' 0 1 0) []
       = [AddPath ''/opt/odin'',
          RestoreCache [''/opt/odin''] ''odin-master-debug'',
          AddPath ''/usr/local/opt/llvm@14/bin'',
          Exec ''brew'' [''install'', ''llvm@14''] None,
          Info ''Cache HIT, checking if it is still up-to-date'',
          GetExecOutput ''git'' [''pull'', ''origin'', ''master''] (Some ''/opt/odin''),
          Info ''Cache is not up-to-date, rebuilding the compiler now'',
          SetFailed ''Installing Odin dependencies failed with exit code: 1'']
   \<and> \<not> list_ex is_build (run (example_common True)
        (example_world ''darwin'' (Some ''odin-master-debug'') ''Updating 1a2b..3c4d'' 0 1 0) [])
   \<and> SetOutput ''cache-hit'' False \<notin> set (run (example_common True)
        (example_world ''darwin'' (Some ''odin-master-debug'') ''Updating 1a2b..3c4d'' 0 1 0) [])"
  by (simp add: run_eval)

subsection \<open>Cache misses\<close>

text \<open>
  C4, as the code has it. In every run with caching enabled in which the cache store
  restores no key, or a key other than the requested one, the repository is cloned,
  once, and \<open>git pull\<close> is never called. When the clone and the dependency installation
  both succeed, the build command is called exactly once, in the checkout directory and
  after the clone.
\<close>

theorem cache_miss:
  assumes "getInputs c = Inr inp" and "cacheCheck c inp"
    and "on_restoreCache w (cachePaths c) (composeCacheKey c inp) = Inr restored"
    and "restored \<noteq> Some (composeCacheKey c inp)"
  shows "Exec ''git'' [''clone'', repository inp, odinPath c, ''--branch'', odinVersion inp,
                       ''--depth=1'', ''--single-branch'', ''--no-tags''] None \<in> set (run c w s)
         \<and> length (filter (is_git ''clone'') (run c w s)) = 1
         \<and> \<not> list_ex (is_git ''pull'') (run c w s)
         \<and> (outcome (pullOdin c w (repository inp) (odinVersion inp)) = Inr ()
              \<and> outcome (pullOdinBuildDependencies w (llvmVersion inp)) = Inr ()
            \<longrightarrow> length (filter is_build (run c w s)) = 1
                \<and> (\<exists>pre cmd post.
                      run c w s = pre @ Exec cmd [buildType inp] (Some (odinPath c)) # post
                      \<and> is_build (Exec cmd [buildType inp] (Some (odinPath c)))
                      \<and> Exec ''git'' [''clone'', repository inp, odinPath c, ''--branch'',
                                      odinVersion inp, ''--depth=1'', ''--single-branch'',
                                      ''--no-tags''] None \<in> set pre))"
proof -
  let ?a = "restoreCache c w inp (odinPath c)"
  let ?b = "pullOdinBuildDependencies w (llvmVersion inp)"
  let ?clone = "Exec ''git'' [''clone'', repository inp, odinPath c, ''--branch'', odinVersion inp,
                       ''--depth=1'', ''--single-branch'', ''--no-tags''] None"
  note A = restoreCache_miss [OF assms(3,4), of "odinPath c"]
  from assms(1,2) obtain ending where
    S: "set (run c w s) = set (AddPath (odinPath c) # effects ?a @ effects ?b @ ending)"
    and L: "\<And>P. length (filter P (run c w s))
          = length (filter P (AddPath (odinPath c) # effects ?a @ effects ?b @ ending))"
    and E: "outcome ?a = Inr True \<and> outcome ?b = Inr () \<and> ending = []
            \<or> outcome ?a = Inr False \<and> outcome ?b = Inr ()
              \<and> ending = catch (build w inp (odinPath c))
            \<or> (\<exists>m. (outcome ?a = Inl m \<or> outcome ?b = Inl m) \<and> ending = [SetFailed m])"
    by (rule run_cached_calls [where w = w and s = s]) (rule that)
  from E have N: "filter (is_git ''clone'') ending = []" "filter (is_git ''pull'') ending = []"
    by (auto simp add: filter_catch_build)
  have 1: "?clone \<in> set (run c w s)"
    unfolding S using A(1) by simp
  have 2: "length (filter (is_git ''clone'') (run c w s)) = 1"
    unfolding L using A(1) N by (simp add: filter_deps)
  have "length (filter (is_git ''pull'') (run c w s)) = 0"
    unfolding L using A(1) N by (simp add: filter_deps)
  then have 3: "\<not> list_ex (is_git ''pull'') (run c w s)"
    by (simp add: list_ex_filter)
  have 4: "length (filter is_build (run c w s)) = 1
           \<and> (\<exists>pre cmd post.
                 run c w s = pre @ Exec cmd [buildType inp] (Some (odinPath c)) # post
                 \<and> is_build (Exec cmd [buildType inp] (Some (odinPath c)))
                 \<and> ?clone \<in> set pre)"
    if P: "outcome (pullOdin c w (repository inp) (odinVersion inp)) = Inr ()"
      and D: "outcome ?b = Inr ()"
  proof -
    from A(2) P have O: "outcome ?a = Inr False" by simp
    from assms(1,2) show ?thesis
    proof (cases rule: run_cached_cases [where w = w and s = s])
      case (rejected early m late)
      then show ?thesis using O D by simp
    next
      case (hit early)
      then show ?thesis using O by simp
    next
      case (rebuild early)
      from rebuild(4) have S: "set early = set (effects ?a) \<union> set (effects ?b)"
        by (rule set_of_mset_sum)
      have "length (filter is_build early) = length (filter is_build (effects ?a @ effects ?b))"
        using rebuild(4) by (intro length_filter_mset) simp
      then have nb: "filter is_build early = []"
        by (simp add: filter_restoreCache filter_deps)
      from rebuild(1) D nb
      have B: "length (filter is_build (run c w s)) = 1
           \<and> (\<exists>pre cmd post.
                 run c w s = pre @ Exec cmd [buildType inp] (Some (odinPath c)) # post
                 \<and> is_build (Exec cmd [buildType inp] (Some (odinPath c)))
                 \<and> set early \<subseteq> set pre)"
        by (rule rebuild_after)
      have "?clone \<in> set early" unfolding S using A(1) by simp
      with B show ?thesis by blast
    qed
  qed
  show ?thesis using 1 2 3 4 by blast
qed

theorem cache_miss_witness:
  "getInputs (example_common True) = Inr example_inputs
   \<and> cacheCheck (example_common True) example_inputs
   \<and> on_restoreCache (example_world ''linux'' None [] 0 0 0)
        (cachePaths (example_common True)) (composeCacheKey (example_common True) example_inputs)
       = Inr None
   \<and> None \<noteq> Some (composeCacheKey (example_common True) example_inputs)
   \<and> outcome (pullOdin (example_common True) (example_world ''linux'' None [] 0 0 0)
        (repository example_inputs) (odinVersion example_inputs)) = Inr ()
   \<and> outcome (pullOdinBuildDependencies (example_world ''linux'' None [] 0 0 0)
        (llvmVersion example_inputs)) = Inr ()
   \<and> length (filter (is_git ''clone'') (run (example_common True)
        (example_world ''linux'' None [] 0 0 0) [False, True, False])) = 1
   \<and> \<not> list_ex (is_git ''pull'') (run (example_common True)
        (example_world ''linux'' None [] 0 0 0) [False, True, False])
   \<and> length (filter is_build (run (example_common True)
        (example_world ''linux'' None [] 0 0 0) [False, True, False])) = 1"
proof -
  let ?c = "example_common True"
  let ?w = "example_world ''linux'' None [] 0 0 0"
  have h1: "getInputs ?c = Inr example_inputs" and h2: "cacheCheck ?c example_inputs"
    by (simp_all add: example_common_def)
  have h3: "on_restoreCache ?w (cachePaths ?c) (composeCacheKey ?c example_inputs) = Inr None"
    by (simp add: example_world_def)
  have h4: "None \<noteq> Some (composeCacheKey ?c example_inputs)" by simp
  have h5: "outcome (pullOdin ?c ?w (repository example_inputs) (odinVersion example_inputs))
              = Inr ()"
    by (simp add: outcome_pullOdin example_world_def)
  have h6: "outcome (pullOdinBuildDependencies ?w (llvmVersion example_inputs)) = Inr ()"
    by (simp add: run_eval)
  show ?thesis
    using h1 h2 h3 h5 h6 cache_miss [OF h1 h2 h3 h4, of "[False, True, False]"] by simp
qed

text \<open>
  Without a successful clone there is no build: on \<open>linux\<close>, the cache store restores
  another key and \<open>git clone\<close> exits with 128.
\<close>

theorem cache_miss_counterexample:
  "getInputs (example_common True) = Inr example_inputs
   \<and> cacheCheck (example_common True) example_inputs
   \<and> on_restoreCache (example_world ''linux'' (Some ''odin-v1-release'') [] 128 0 0)
        (cachePaths (example_common True)) (composeCacheKey (example_common True) example_inputs)
       = Inr (Some ''odin-v1-release'')
   \<and> composeCacheKey (example_common True) example_inputs = ''odin-master-debug''
   \<and> run (example_common True)
        (example_world ''linux'' (Some ''odin-v1-release'') [] 128 0 0) [False]
       = [AddPath ''/opt/odin'',
          RestoreCache [''/opt/odin''] ''odin-master-debug'',
          Which ''llvm-14'',
          Exec ''sudo'' [''apt-fast'', ''install'', ''llvm-14-dev'', ''clang-14''] None,
          Info ''Cache MISS'',
          Exec ''git'' [''clone'', ''https://github.com/odin-lang/Odin'', ''/opt/odin'',
                        ''--branch'', ''master'', ''--depth=1'', ''--single-branch'',
                        ''--no-tags''] None,
          SetFailed ''Git clone failed with exit code: 128, are you sure that version exists?'']
   \<and> \<not> list_ex is_build (run (example_common True)
        (example_world ''linux'' (Some ''odin-v1-release'') [] 128 0 0) [False])"
  by (simp add: run_eval)

subsection \<open>Caching disabled\<close>

text \<open>
  C5, as the code has it. In every run with caching disabled the repository is cloned,
  once; the cache store is never queried, and the run is the same whatever the cache
  store would answer. When the clone and the dependency installation both succeed, the
  build command is called exactly once, in the checkout directory and after the clone.
\<close>

theorem cache_disabled:
  assumes "getInputs c = Inr inp" and "\<not> cacheCheck c inp"
  shows "Exec ''git'' [''clone'', repository inp, odinPath c, ''--branch'', odinVersion inp,
                       ''--depth=1'', ''--single-branch'', ''--no-tags''] None \<in> set (run c w s)
         \<and> length (filter (is_git ''clone'') (run c w s)) = 1
         \<and> \<not> list_ex is_cache_query (run c w s)
         \<and> run c (w\<lparr>on_restoreCache := f\<rparr>) s = run c w s
         \<and> (outcome (pullOdin c w (repository inp) (odinVersion inp)) = Inr ()
              \<and> outcome (pullOdinBuildDependencies w (llvmVersion inp)) = Inr ()
            \<longrightarrow> length (filter is_build (run c w s)) = 1
                \<and> (\<exists>pre cmd post.
                      run c w s = pre @ Exec cmd [buildType inp] (Some (odinPath c)) # post
                      \<and> is_build (Exec cmd [buildType inp] (Some (odinPath c)))
                      \<and> Exec ''git'' [''clone'', repository inp, odinPath c, ''--branch'',
                                      odinVersion inp, ''--depth=1'', ''--single-branch'',
                                      ''--no-tags''] None \<in> set pre))"
proof -
  let ?a = "pullOdin c w (repository inp) (odinVersion inp)"
  let ?b = "pullOdinBuildDependencies w (llvmVersion inp)"
  let ?clone = "Exec ''git'' [''clone'', repository inp, odinPath c, ''--branch'', odinVersion inp,
                       ''--depth=1'', ''--single-branch'', ''--no-tags''] None"
  from assms obtain ending where
    S: "set (run c w s) = set (AddPath (odinPath c) # effects ?a @ effects ?b @ ending)"
    and L: "\<And>P. length (filter P (run c w s))
          = length (filter P (AddPath (odinPath c) # effects ?a @ effects ?b @ ending))"
    and E: "outcome ?a = Inr () \<and> outcome ?b = Inr ()
              \<and> ending = catch (build w inp (odinPath c))
            \<or> (\<exists>m. (outcome ?a = Inl m \<or> outcome ?b = Inl m) \<and> ending = [SetFailed m])"
    by (rule run_uncached_calls [where w = w and s = s]) (rule that)
  from E have N: "filter (is_git ''clone'') ending = []" "filter is_cache_query ending = []"
    by (auto simp add: filter_catch_build)
  have 1: "?clone \<in> set (run c w s)"
    unfolding S by (simp add: effects_pullOdin)
  have 2: "length (filter (is_git ''clone'') (run c w s)) = 1"
    unfolding L using N by (simp add: filter_deps effects_pullOdin)
  have "length (filter is_cache_query (run c w s)) = 0"
    unfolding L using N by (simp add: filter_deps effects_pullOdin)
  then have 3: "\<not> list_ex is_cache_query (run c w s)"
    by (simp add: list_ex_filter)
  have 4: "run c (w\<lparr>on_restoreCache := f\<rparr>) s = run c w s"
    using assms by (simp add: run_def world_without_cache split: prod.splits sum.splits)
  have 5: "length (filter is_build (run c w s)) = 1
           \<and> (\<exists>pre cmd post.
                 run c w s = pre @ Exec cmd [buildType inp] (Some (odinPath c)) # post
                 \<and> is_build (Exec cmd [buildType inp] (Some (odinPath c)))
                 \<and> ?clone \<in> set pre)"
    if P: "outcome ?a = Inr ()" and D: "outcome ?b = Inr ()"
    using assms
  proof (cases rule: run_uncached_cases [where w = w and s = s])
    case (rejected early m late)
    then show ?thesis using P D by simp
  next
    case (rebuild early)
    from rebuild(4) have S: "set early = set (effects ?a) \<union> set (effects ?b)"
      by (rule set_of_mset_sum)
    have "length (filter is_build early) = length (filter is_build (effects ?a @ effects ?b))"
      using rebuild(4) by (intro length_filter_mset) simp
    then have nb: "filter is_build early = []"
      by (simp add: filter_pullOdin filter_deps)
    from rebuild(1) D nb
    have B: "length (filter is_build (run c w s)) = 1
         \<and> (\<exists>pre cmd post.
               run c w s = pre @ Exec cmd [buildType inp] (Some (odinPath c)) # post
               \<and> is_build (Exec cmd [buildType inp] (Some (odinPath c)))
               \<and> set early \<subseteq> set pre)"
      by (rule rebuild_after)
    have "?clone \<in> set early" unfolding S by (simp add: effects_pullOdin)
    with B show ?thesis by blast
  qed
  show ?thesis using 1 2 3 4 5 by blast
qed

theorem cache_disabled_witness:
  "getInputs (example_common False) = Inr example_inputs
   \<and> \<not> cacheCheck (example_common False) example_inputs
   \<and> outcome (pullOdin (example_common False) (example_world ''darwin'' None [] 0 0 0)
        (repository example_inputs) (odinVersion example_inputs)) = Inr ()
   \<and> outcome (pullOdinBuildDependencies (example_world ''darwin'' None [] 0 0 0)
        (llvmVersion example_inputs)) = Inr ()
   \<and> length (filter (is_git ''clone'') (run (example_common False)
        (example_world ''darwin'' None [] 0 0 0) [False])) = 1
   \<and> \<not> list_ex is_cache_query (run (example_common False)
        (example_world ''darwin'' None [] 0 0 0) [False])
   \<and> run (example_common False)
        ((example_world ''darwin'' None [] 0 0 0)
           \<lparr>on_restoreCache := \<lambda>paths key. Inr (Some key)\<rparr>) [False]
       = run (example_common False) (example_world ''darwin'' None [] 0 0 0) [False]
   \<and> length (filter is_build (run (example_common False)
        (example_world ''darwin'' None [] 0 0 0) [False])) = 1"
proof -
  let ?c = "example_common False"
  let ?w = "example_world ''darwin'' None [] 0 0 0"
  have h1: "getInputs ?c = Inr example_inputs" and h2: "\<not> cacheCheck ?c example_inputs"
    by (simp_all add: example_common_def)
  have h3: "outcome (pullOdin ?c ?w (repository example_inputs) (odinVersion example_inputs))
              = Inr ()"
    by (simp add: outcome_pullOdin example_world_def)
  have h4: "outcome (pullOdinBuildDependencies ?w (llvmVersion example_inputs)) = Inr ()"
    by (simp add: run_eval)
  show ?thesis
    using h1 h2 h3 h4
      cache_disabled [OF h1 h2, of ?w "[False]" "\<lambda>paths key. Inr (Some key)"]
    by simp
qed

text \<open>
  Without a successful dependency installation there is no build: with caching disabled
  on \<open>sunos\<close>, the run clones and reports the unsupported platform.
\<close>

theorem cache_disabled_counterexample:
  "getInputs (example_common False) = Inr example_inputs
   \<and> \<not> cacheCheck (example_common False) example_inputs
   \<and> run (example_common False) (example_world ''sunos'' None [] 0 0 0) []
       = [AddPath ''/opt/odin'',
          Exec ''git'' [''clone'', ''https://github.com/odin-lang/Odin'', ''/opt/odin'',
                        ''--branch'', ''master'', ''--depth=1'', ''--single-branch'',
                        ''--no-tags''] None,
          SetFailed ''Operating system sunos is not supported by setup-odin'']
   \<and> \<not> list_ex is_build (run (example_common False) (example_world ''sunos'' None [] 0 0 0) [])"
  by (simp add: run_eval)

end
